theory Spec2Isabelle
  imports Complex_Main "HOL-Library.Char_ord" "HOL-Library.List_Lexorder" "HOL-Library.Multiset"
begin

section \<open>Host-language values\<close>

text \<open>
  A thrown value is either an \<open>Error\<close> object, of which only the message is ever read
  (\<open>err instanceof Error ? err.message : ...\<close>), or some other value.
\<close>

datatype exn = Error (message: string) | Thrown

text \<open>
  A JavaScript \<open>number\<close>: a finite value, an infinity or NaN. Finite values are taken
  as exact reals; the rounding of IEEE doubles is not part of the model.
\<close>

datatype number = Fin real | Infinity | NaN

definition isFinite :: "number \<Rightarrow> bool" where
  "isFinite x = (case x of Fin _ \<Rightarrow> True | _ \<Rightarrow> False)"

text \<open>The real a finite number stands for; arithmetic is done on it after \<open>isFinite\<close> only.\<close>

definition finite_value :: "number \<Rightarrow> real" where
  "finite_value x = (case x of Fin r \<Rightarrow> r | _ \<Rightarrow> 0)"

text \<open>\<open>String(n)\<close> and template interpolation of a non-negative integer: its decimal digits.\<close>

fun String_nat :: "nat \<Rightarrow> string" where
  "String_nat n =
     (if n < 10 then [char_of (48 + n)]
      else String_nat (n div 10) @ [char_of (48 + n mod 10)])"

declare String_nat.simps [simp del]

section \<open>Entities (types.ts)\<close>

record user =
  user_id :: "nat option"
  email :: string

record face =
  face_id :: string
  face_userId :: nat
  face_name :: "string option"
  face_image :: string
  face_description :: string

record videoSegment =
  seg_timestamp :: real
  seg_description :: string

record onScreenTextSegment =
  ost_timestamp :: real
  ost_text :: string

text \<open>
  A \<open>File\<close>: its name, its MIME type and its bytes. What the browser's video element
  makes of the bytes is given separately, by \<open>loadMetadata\<close> of the environment.
\<close>

record File =
  file_name :: string
  file_type :: string
  file_bytes :: string

record video =
  video_id :: string
  video_userId :: nat
  video_name :: string
  video_file :: File
  video_description :: string
  video_duration :: number
  faceIds :: "string list"
  segments :: "videoSegment list"
  transcript :: string
  onScreenText :: "onScreenTextSegment list"

text \<open>\<open>type UIVideo = Video & { url: string }\<close>\<close>

record uivideo = video +
  url :: string

datatype sender = SenderUser | SenderAi

record chatMessage =
  msg_id :: string
  msg_sender :: sender
  msg_text :: string
  msg_videos :: "uivideo list option"

section \<open>The host environment\<close>

text \<open>The value of \<open>JSON.parse\<close>.\<close>

datatype json =
    JNull
  | JBool bool
  | JNumber real
  | JString string
  | JArray "json list"
  | JObject "(string \<times> json) list"

text \<open>What the generative-AI endpoint is asked: the three uses of \<open>ai.models.generateContent\<close>.\<close>

datatype ai_request =
    SearchRequest string "(string \<times> string) list"
  | ChatRequest string nat
  | AnalysisRequest "string list" number

record box =
  y_min :: real
  x_min :: real
  y_max :: real
  x_max :: real

record faceEntry =
  frameIndex :: int
  fe_description :: string
  fe_box :: box

text \<open>
  The arguments of a function call in a response are untyped; a field is \<open>None\<close> when it
  is missing or has not the shape the code tests for (\<open>Array.isArray\<close>,
  \<open>typeof ... === 'undefined'\<close>).
\<close>

record extractArgs =
  arg_description :: "string option"
  arg_faces :: "faceEntry list option"
  arg_segments :: "videoSegment list option"
  arg_transcript :: "string option"
  arg_onScreenText :: "onScreenTextSegment list option"

record functionCall =
  fc_name :: string
  fc_args :: extractArgs

record ai_response =
  resp_text :: "string option"
  resp_functionCalls :: "functionCall list"

record image =
  img_width :: real
  img_height :: real
  img_data :: string

text \<open>
  A video element once its metadata is loaded: the duration it reports, and for each seek
  target the frame that the canvas yields when \<open>seeked\<close> fires, or \<open>None\<close> when it
  does not fire within the 2000 ms of the seek timeout.
\<close>

record videoElement =
  ve_duration :: number
  ve_seek :: "real \<Rightarrow> string option"

text \<open>
  Everything the code takes from outside: the AI endpoint (its answer to the n-th request
  it receives), the built-in functions of the language and the browser, and two things of
  the embedded store that are not part of the tables.

  \<open>trim\<close>, \<open>toLowerCase\<close> and \<open>toUpperCase\<close> are the methods of \<open>String.prototype\<close>, over
  all of Unicode, whatever the host makes them.

  \<open>ignoreCaseAlgorithm\<close> is the algorithm behind Dexie's \<open>equalsIgnoreCase\<close>: given the
  upper-case and the lower-case form of the needle, it says of each key of the index
  whether the collection contains it. Dexie reads the needle through these two forms only;
  what it does with them is left open here.

  \<open>storeReadError\<close> is the error with which the store rejects the reads of a user's
  videos and faces, when it does (a closed or blocked database).
\<close>

record env =
  generateContent :: "nat \<Rightarrow> ai_request \<Rightarrow> exn + ai_response"
  JSON_parse :: "string \<Rightarrow> json option"
  trim :: "string \<Rightarrow> string"
  toLowerCase :: "string \<Rightarrow> string"
  toUpperCase :: "string \<Rightarrow> string"
  ignoreCaseAlgorithm :: "string \<Rightarrow> string \<Rightarrow> string \<Rightarrow> bool"
  storeReadError :: "nat \<Rightarrow> exn option"
  canvasContext :: bool
  loadMetadata :: "File \<Rightarrow> videoElement option"
  loadImage :: "string \<Rightarrow> image option"
  drawCrop :: "image \<Rightarrow> real \<Rightarrow> real \<Rightarrow> real \<Rightarrow> real \<Rightarrow> string"
  numberToString :: "real \<Rightarrow> string"
  createObjectURL :: "File \<Rightarrow> string"

section \<open>The embedded store (services/db.ts)\<close>

text \<open>
  The three Dexie tables. \<open>users\<close> has the auto-incremented primary key \<open>++id\<close>, whose
  key generator is \<open>db_users_next\<close> (IndexedDB starts it at 1), and the unique index
  \<open>&email\<close>. \<open>videos\<close> and \<open>faces\<close> have the given string \<open>id\<close> as primary key and an
  index on \<open>userId\<close>. Each table is the list of its rows in insertion order; a query
  walks the rows in the order of the index it uses.
\<close>

record db =
  db_users :: "user list"
  db_users_next :: nat
  db_videos :: "video list"
  db_faces :: "face list"

definition empty_db :: db where
  "empty_db = \<lparr>db_users = [], db_users_next = 1, db_videos = [], db_faces = []\<rparr>"

text \<open>
  \<open>where('email').equalsIgnoreCase(needle)\<close>: whether the collection contains a key. The
  needle enters through its two case forms, as the host computes them.
\<close>

definition equalsIgnoreCase :: "env \<Rightarrow> string \<Rightarrow> string \<Rightarrow> bool" where
  "equalsIgnoreCase ev needle key =
     ignoreCaseAlgorithm ev (toUpperCase ev needle) (toLowerCase ev needle) key"

text \<open>
  \<open>db.users.where('email').equalsIgnoreCase(email).first()\<close>: the first row of the
  collection, in the order of the email index.
\<close>

definition getUserByEmail :: "env \<Rightarrow> db \<Rightarrow> string \<Rightarrow> user option" where
  "getUserByEmail ev d e =
     find (\<lambda>u. equalsIgnoreCase ev e (email u)) (sort_key email (db_users d))"

text \<open>\<open>db.users.get(id)\<close>\<close>

definition getUserById :: "db \<Rightarrow> nat \<Rightarrow> user option" where
  "getUserById d i = find (\<lambda>u. user_id u = Some i) (db_users d)"

text \<open>
  \<open>db.users.add({ email })\<close>: rejected with a ConstraintError when the unique email index
  already holds the key; otherwise the row gets the next generated key, which is returned.
\<close>

definition createUser :: "db \<Rightarrow> string \<Rightarrow> exn + (nat \<times> db)" where
  "createUser d e =
     (if e \<in> set (map email (db_users d)) then Inl (Error ''ConstraintError'')
      else Inr (db_users_next d,
                d\<lparr>db_users := db_users d @ [\<lparr>user_id = Some (db_users_next d), email = e\<rparr>],
                  db_users_next := Suc (db_users_next d)\<rparr>))"

text \<open>\<open>db.videos.add(video)\<close>: rejected when the primary key is already in the table.\<close>

definition addVideo :: "db \<Rightarrow> video \<Rightarrow> exn + db" where
  "addVideo d v =
     (if video_id v \<in> set (map video_id (db_videos d)) then Inl (Error ''ConstraintError'')
      else Inr (d\<lparr>db_videos := db_videos d @ [v]\<rparr>))"

text \<open>\<open>db.videos.where('userId').equals(userId).toArray()\<close>: in primary-key order.\<close>

definition getVideosForUser :: "db \<Rightarrow> nat \<Rightarrow> video list" where
  "getVideosForUser d i = sort_key video_id (filter (\<lambda>v. video_userId v = i) (db_videos d))"

text \<open>
  \<open>db.faces.bulkAdd(faces, { allKeys: true })\<close>, outside any transaction scope: the rows are
  added one after the other, a row whose key is already in the table is skipped, and the
  promise is rejected with a BulkError when at least one row was skipped. The rows that
  were added stay in the table in either case.
\<close>

fun bulkAdd :: "face list \<Rightarrow> face list \<Rightarrow> nat \<times> face list" where
  "bulkAdd tbl [] = (0, tbl)"
| "bulkAdd tbl (f # fs) =
     (if face_id f \<in> set (map face_id tbl)
      then (case bulkAdd tbl fs of (k, tbl') \<Rightarrow> (Suc k, tbl'))
      else bulkAdd (tbl @ [f]) fs)"

definition addFaces :: "db \<Rightarrow> face list \<Rightarrow> exn option \<times> db" where
  "addFaces d fs =
     (case bulkAdd (db_faces d) fs of
        (k, tbl') \<Rightarrow> (if k = 0 then None else Some (Error ''BulkError''), d\<lparr>db_faces := tbl'\<rparr>))"

text \<open>\<open>db.faces.where('userId').equals(userId).toArray()\<close>\<close>

definition getFacesForUser :: "db \<Rightarrow> nat \<Rightarrow> face list" where
  "getFacesForUser d i = sort_key face_id (filter (\<lambda>f. face_userId f = i) (db_faces d))"

text \<open>\<open>db.faces.update(faceId, { name })\<close>\<close>

definition updateFaceName :: "db \<Rightarrow> string \<Rightarrow> string \<Rightarrow> db" where
  "updateFaceName d fid n =
     d\<lparr>db_faces := map (\<lambda>f. if face_id f = fid then f\<lparr>face_name := Some n\<rparr> else f) (db_faces d)\<rparr>"

section \<open>Authentication (AuthProvider)\<close>

text \<open>
  The provider's state \<open>currentUser\<close> and the \<open>deshavu_userId\<close> entry of the session
  storage.
\<close>

record auth =
  currentUser :: "user option"
  sessionUserId :: "string option"

text \<open>
  \<open>login\<close>: the password parameter is never read. The guard \<open>!user || !user.id\<close> also
  rejects a row whose id is missing or 0.
\<close>

definition login :: "env \<Rightarrow> db \<Rightarrow> auth \<Rightarrow> string \<Rightarrow> string \<Rightarrow> exn + auth" where
  "login ev d a e password =
     (case getUserByEmail ev d e of
        None \<Rightarrow> Inl (Error ''No account found with this email. Please sign up.'')
      | Some u \<Rightarrow>
          (case user_id u of
             None \<Rightarrow> Inl (Error ''No account found with this email. Please sign up.'')
           | Some i \<Rightarrow>
               if i = 0 then Inl (Error ''No account found with this email. Please sign up.'')
               else Inr (a\<lparr>currentUser := Some u, sessionUserId := Some (String_nat i)\<rparr>)))"

text \<open>
  \<open>signup\<close> returns the outcome together with the store, which keeps the new row when
  the failure comes after \<open>createUser\<close>.
\<close>

definition signup :: "env \<Rightarrow> db \<Rightarrow> auth \<Rightarrow> string \<Rightarrow> string \<Rightarrow> (exn + auth) \<times> db" where
  "signup ev d a e password =
     (case getUserByEmail ev d e of
        Some existingUser \<Rightarrow> (Inl (Error ''An account with this email already exists.''), d)
      | None \<Rightarrow>
          (case createUser d e of
             Inl err \<Rightarrow> (Inl err, d)
           | Inr (newUserId, d') \<Rightarrow>
               (case getUserById d' newUserId of
                  None \<Rightarrow> (Inl (Error ''Failed to create a new user account.''), d')
                | Some newUser \<Rightarrow>
                    (case user_id newUser of
                       None \<Rightarrow> (Inl (Error ''Failed to create a new user account.''), d')
                     | Some i \<Rightarrow>
                         if i = 0 then (Inl (Error ''Failed to create a new user account.''), d')
                         else (Inr (a\<lparr>currentUser := Some newUser,
                                      sessionUserId := Some (String_nat i)\<rparr>), d')))))"

definition logout :: "auth \<Rightarrow> auth" where
  "logout a = a\<lparr>currentUser := None, sessionUserId := None\<rparr>"

text \<open>
  \<open>checkLoggedInUser\<close>, run when the provider mounts; \<open>parseInt\<close> is the host's, and an
  empty entry counts as none.
\<close>

definition checkLoggedInUser :: "(string \<Rightarrow> nat option) \<Rightarrow> db \<Rightarrow> auth \<Rightarrow> auth" where
  "checkLoggedInUser parseInt d a =
     (case sessionUserId a of
        None \<Rightarrow> a
      | Some userIdStr \<Rightarrow>
          if userIdStr = [] then a
          else (case parseInt userIdStr of
                  None \<Rightarrow> a\<lparr>currentUser := None\<rparr>
                | Some userId \<Rightarrow> a\<lparr>currentUser := getUserById d userId\<rparr>))"

text \<open>
  What IndexedDB guarantees of the \<open>users\<close> table: the key generator is positive, every
  row carries its generated key, keys are positive, below the generator and pairwise
  different.
\<close>

definition keys_ok :: "db \<Rightarrow> bool" where
  "keys_ok d =
     (0 < db_users_next d
      \<and> list_all (\<lambda>u. case user_id u of None \<Rightarrow> False | Some k \<Rightarrow> 0 < k \<and> k < db_users_next d)
            (db_users d)
      \<and> distinct (map user_id (db_users d)))"

section \<open>The AI service (services/geminiService.ts)\<close>

text \<open>
  Each function takes the number \<open>n\<close> of requests the endpoint has received so far and
  returns it updated, so that the requests a function makes are counted.
\<close>

text \<open>\<open>Array.isArray(x) && x.every(item => typeof item === 'string')\<close>\<close>

definition stringArray :: "json \<Rightarrow> string list option" where
  "stringArray j =
     (case j of
        JArray xs \<Rightarrow>
          (if list_all (\<lambda>x. case x of JString _ \<Rightarrow> True | _ \<Rightarrow> False) xs
           then Some (map (\<lambda>x. case x of JString s \<Rightarrow> s | _ \<Rightarrow> []) xs) else None)
      | _ \<Rightarrow> None)"

definition findMatchingVideos ::
  "env \<Rightarrow> nat \<Rightarrow> string \<Rightarrow> 'a video_scheme list \<Rightarrow> (exn + string list) \<times> nat" where
  "findMatchingVideos ev n query vs =
     (if length vs = 0 then (Inr [], n)
      else
        let simplifiedVideos = map (\<lambda>v. (video_id v, video_description v)) vs;
            failed = Inl (Error ''Failed to search videos. Please try again.'')
        in case generateContent ev n (SearchRequest query simplifiedVideos) of
             Inl err \<Rightarrow> (failed, Suc n)
           | Inr response \<Rightarrow>
               (case resp_text response of
                  None \<Rightarrow> (failed, Suc n)
                | Some t \<Rightarrow>
                    (case JSON_parse ev (trim ev t) of
                       None \<Rightarrow> (failed, Suc n)
                     | Some matchingIds \<Rightarrow>
                         (case stringArray matchingIds of
                            Some ids \<Rightarrow> (Inr ids, Suc n)
                          | None \<Rightarrow> (Inr [], Suc n)))))"

definition chatFallback :: "nat \<Rightarrow> string" where
  "chatFallback foundVideosCount =
     (if foundVideosCount > 0
      then ''I found '' @ String_nat foundVideosCount @ '' video(s) that match your memory.''
      else ''I couldn't find any videos matching that memory.'')"

definition generateChatResponse :: "env \<Rightarrow> nat \<Rightarrow> string \<Rightarrow> nat \<Rightarrow> string \<times> nat" where
  "generateChatResponse ev n userQuery foundVideosCount =
     (case generateContent ev n (ChatRequest userQuery foundVideosCount) of
        Inl err \<Rightarrow> (chatFallback foundVideosCount, Suc n)
      | Inr response \<Rightarrow>
          (case resp_text response of
             None \<Rightarrow> (chatFallback foundVideosCount, Suc n)
           | Some t \<Rightarrow> (trim ev t, Suc n)))"

text \<open>
  \<open>cropFace\<close>: the image is loaded first (\<open>onerror\<close> rejects with the event), the canvas
  context is asked for in \<open>onload\<close> (a missing one rejects with a string).
\<close>

definition cropFace :: "env \<Rightarrow> string \<Rightarrow> box \<Rightarrow> exn + string" where
  "cropFace ev base64Frame b =
     (case loadImage ev base64Frame of
        None \<Rightarrow> Inl Thrown
      | Some img \<Rightarrow>
          if \<not> canvasContext ev then Inl Thrown
          else
            let sx = x_min b * img_width img;
                sy = y_min b * img_height img;
                sWidth = (x_max b - x_min b) * img_width img;
                sHeight = (y_max b - y_min b) * img_height img
            in Inr (drawCrop ev img sx sy sWidth sHeight))"

record faceCrop =
  fc_description :: string
  fc_image :: string

record videoAnalysisResult =
  vr_description :: string
  vr_faces :: "faceCrop list"
  vr_segments :: "videoSegment list"
  vr_transcript :: string
  vr_onScreenText :: "onScreenTextSegment list"

text \<open>\<open>base64Frames[face.frameIndex]\<close>: \<open>undefined\<close> outside the array.\<close>

definition frameAt :: "string list \<Rightarrow> int \<Rightarrow> string option" where
  "frameAt base64Frames i =
     (if 0 \<le> i \<and> i < int (length base64Frames) then Some (base64Frames ! nat i) else None)"

text \<open>
  The body of the \<open>faces.map\<close> callback. \<open>!frame\<close> holds for \<open>undefined\<close> and for the
  empty string.
\<close>

definition cropEntry :: "env \<Rightarrow> string list \<Rightarrow> faceEntry \<Rightarrow> exn + faceCrop option" where
  "cropEntry ev base64Frames fe =
     (case frameAt base64Frames (frameIndex fe) of
        None \<Rightarrow> Inr None
      | Some frame \<Rightarrow>
          if frame = [] then Inr None
          else (case cropFace ev frame (fe_box fe) of
                  Inl err \<Rightarrow> Inl err
                | Inr croppedImage \<Rightarrow>
                    Inr (Some \<lparr>fc_description = fe_description fe, fc_image = croppedImage\<rparr>)))"

text \<open>
  \<open>Promise.all\<close>: the results in the order of the promises, or a rejection when one of
  them rejects (here the first in the list; the caller replaces the value anyway).
\<close>

fun promiseAll :: "(exn + 'a) list \<Rightarrow> exn + 'a list" where
  "promiseAll [] = Inr []"
| "promiseAll (Inl err # ps) = Inl err"
| "promiseAll (Inr x # ps) = (case promiseAll ps of Inl err \<Rightarrow> Inl err | Inr xs \<Rightarrow> Inr (x # xs))"

definition analyzeVideoContent ::
  "env \<Rightarrow> nat \<Rightarrow> string list \<Rightarrow> number \<Rightarrow> (exn + videoAnalysisResult) \<times> nat" where
  "analyzeVideoContent ev n base64Frames videoDuration =
     (let failed = Inl (Error ''Failed to analyze video content with face detection.'')
      in case generateContent ev n (AnalysisRequest base64Frames videoDuration) of
           Inl err \<Rightarrow> (failed, Suc n)
         | Inr response \<Rightarrow>
             (case resp_functionCalls response of
                [] \<Rightarrow> (failed, Suc n)
              | call # _ \<Rightarrow>
                  if fc_name call \<noteq> ''extractVideoDetails'' then (failed, Suc n)
                  else
                    (case (arg_description (fc_args call), arg_faces (fc_args call),
                           arg_segments (fc_args call), arg_transcript (fc_args call),
                           arg_onScreenText (fc_args call)) of
                       (Some description, Some fes, Some segs, Some tr, Some ost) \<Rightarrow>
                         if description = [] then (failed, Suc n)
                         else
                           (case promiseAll (map (cropEntry ev base64Frames) fes) of
                              Inl err \<Rightarrow> (failed, Suc n)
                            | Inr faceCrops \<Rightarrow>
                                (Inr \<lparr>vr_description = description,
                                      vr_faces = List.map_filter (\<lambda>c. c) faceCrops,
                                      vr_segments = segs,
                                      vr_transcript = tr,
                                      vr_onScreenText = ost\<rparr>, Suc n))
                     | _ \<Rightarrow> (failed, Suc n))))"

section \<open>Frame extraction and the upload dialog (components/VideoUploadModal.tsx)\<close>

text \<open>
  \<open>captureFrameAt\<close>: sets \<open>currentTime\<close> and waits for \<open>seeked\<close> or for the timeout,
  whichever comes first.
\<close>

definition captureFrameAt :: "env \<Rightarrow> videoElement \<Rightarrow> real \<Rightarrow> exn + string" where
  "captureFrameAt ev v t =
     (case ve_seek v t of
        None \<Rightarrow> Inl (Error (''Seek timed out at '' @ numberToString ev t @ ''s''))
      | Some base64Data \<Rightarrow> Inr base64Data)"

text \<open>
  The loop \<open>for (let i = 1; i <= frameCount; i++) await captureFrameAt(i * interval)\<close>,
  with the array \<open>frames\<close> it pushes to.
\<close>

function captureLoop ::
  "env \<Rightarrow> videoElement \<Rightarrow> real \<Rightarrow> nat \<Rightarrow> nat \<Rightarrow> string list \<Rightarrow> exn + string list" where
  "captureLoop ev v interval i frameCount frames =
     (if i \<le> frameCount
      then (case captureFrameAt ev v (real i * interval) of
              Inl err \<Rightarrow> Inl err
            | Inr base64Data \<Rightarrow> captureLoop ev v interval (Suc i) frameCount (frames @ [base64Data]))
      else Inr frames)"
  by pat_completeness auto
termination
  by (relation "measure (\<lambda>(ev, v, interval, i, frameCount, frames). Suc frameCount - i)") auto

declare captureLoop.simps [simp del]

definition extractFrames :: "env \<Rightarrow> File \<Rightarrow> nat \<Rightarrow> exn + (string list \<times> number)" where
  "extractFrames ev videoFile frameCount =
     (if \<not> canvasContext ev then Inl (Error ''Could not get canvas context'')
      else
        (case loadMetadata ev videoFile of
           None \<Rightarrow>
             Inl (Error ''Error loading video for frame extraction. The file might be corrupt or in an unsupported format.'')
         | Some v \<Rightarrow>
             let duration = ve_duration v
             in if duration = Fin 0 \<or> \<not> isFinite duration
                then Inl (Error ''Video has no duration or is invalid.'')
                else
                  let interval = finite_value duration / (real frameCount + 1)
                  in (case captureLoop ev v interval 1 frameCount [] of
                        Inl err \<Rightarrow> Inl err
                      | Inr frames \<Rightarrow> Inr (frames, duration))))"

record uploadModal =
  videoFile :: "File option"
  modal_error :: "string option"
  isAnalyzing :: bool



section \<open>The sign-in form (components/Auth.tsx)\<close>



section \<open>The application (App)\<close>

record app =
  videos :: "uivideo list"
  allFaces :: "face list"
  chatHistory :: "chatMessage list"
  isLoading :: bool
  error :: "string option"
  searchActive :: bool
  selectedFaceIds :: "string list"

definition initial_app :: app where
  "initial_app = \<lparr>videos = [], allFaces = [], chatHistory = [], isLoading = False,
     error = None, searchActive = False, selectedFaceIds = []\<rparr>"

definition withUrl :: "env \<Rightarrow> video \<Rightarrow> uivideo" where
  "withUrl ev v = video.extend v (uivideo.fields (createObjectURL ev (video_file v)))"

text \<open>
  \<open>loadUserData\<close>: when the store rejects one of the two reads, the \<open>catch\<close> shows a fixed
  message.
\<close>

definition loadUserData :: "env \<Rightarrow> db \<Rightarrow> auth \<Rightarrow> app \<Rightarrow> app" where
  "loadUserData ev d a s =
     (case currentUser a of
        None \<Rightarrow> s
      | Some cu \<Rightarrow>
          (case user_id cu of
             None \<Rightarrow> s
           | Some i \<Rightarrow>
               if i = 0 then s
               else
                 (case storeReadError ev i of
                    Some err \<Rightarrow>
                      s\<lparr>error := Some ''Could not load user data from the database.'',
                        isLoading := False\<rparr>
                  | None \<Rightarrow>
                      s\<lparr>videos := map (withUrl ev) (getVideosForUser d i),
                        allFaces := getFacesForUser d i,
                        isLoading := False\<rparr>)))"

text \<open>
  The ids are built from \<open>Date.now()\<close> and seven base-36 digits of \<open>Math.random()\<close>;
  \<open>entropy k\<close> is the pair of both for the k-th id an upload generates.
\<close>

definition newFaces :: "(nat \<Rightarrow> nat \<times> string) \<Rightarrow> nat \<Rightarrow> faceCrop list \<Rightarrow> face list" where
  "newFaces entropy uid crops =
     map (\<lambda>(k, faceData).
            \<lparr>face_id = ''face-'' @ String_nat (fst (entropy k)) @ ''-'' @ snd (entropy k),
             face_userId = uid,
             face_name = None,
             face_image = fc_image faceData,
             face_description = fc_description faceData\<rparr>)
         (enumerate 0 crops)"

text \<open>
  \<open>handleUpload\<close> returns what it threw, if anything, with the store and the state as they
  are then: nothing in it catches, so a rejected \<open>addFaces\<close> or \<open>addVideo\<close> ends it.
\<close>

definition handleUpload ::
  "env \<Rightarrow> (nat \<Rightarrow> nat \<times> string) \<Rightarrow> db \<Rightarrow> auth \<Rightarrow> app \<Rightarrow> File \<Rightarrow> videoAnalysisResult \<Rightarrow> number
     \<Rightarrow> exn option \<times> db \<times> app" where
  "handleUpload ev entropy d a s f analysisResult duration =
     (case currentUser a of
        None \<Rightarrow> (None, d, s)
      | Some cu \<Rightarrow>
          (case user_id cu of
             None \<Rightarrow> (None, d, s)
           | Some uid \<Rightarrow>
               if uid = 0 then (None, d, s)
               else
                 let nfs = newFaces entropy uid (vr_faces analysisResult);
                     newFaceIds = map face_id nfs;
                     (thrown, d1) = (if length nfs > 0 then addFaces d nfs else (None, d))
                 in (case thrown of
                       Some err \<Rightarrow> (Some err, d1, s)
                     | None \<Rightarrow>
                         let k = length nfs;
                             newVideo =
                               \<lparr>video_id = ''vid-'' @ String_nat (fst (entropy k)) @ ''-'' @ snd (entropy k),
                                video_userId = uid,
                                video_name = file_name f,
                                video_file = f,
                                video_description = vr_description analysisResult,
                                video_duration = duration,
                                faceIds = newFaceIds,
                                segments = vr_segments analysisResult,
                                transcript = vr_transcript analysisResult,
                                onScreenText = vr_onScreenText analysisResult\<rparr>
                         in (case addVideo d1 newVideo of
                               Inl err \<Rightarrow> (Some err, d1, s)
                             | Inr d2 \<Rightarrow> (None, d2, loadUserData ev d2 a s)))))"

text \<open>\<open>selectedFaceIds.every(faceId => video.faceIds.includes(faceId))\<close>\<close>

definition hasSelectedFaces :: "string list \<Rightarrow> 'a video_scheme \<Rightarrow> bool" where
  "hasSelectedFaces sel v = list_all (\<lambda>faceId. faceId \<in> set (faceIds v)) sel"

text \<open>The constant \<open>videosToSearch\<close> of \<open>handleSearch\<close>.\<close>

definition videosToSearch :: "string list \<Rightarrow> 'a video_scheme list \<Rightarrow> 'a video_scheme list" where
  "videosToSearch sel vs = (if length sel > 0 then filter (hasSelectedFaces sel) vs else vs)"

definition errorMessageOf :: "exn \<Rightarrow> string" where
  "errorMessageOf err = (case err of Error msg \<Rightarrow> msg | Thrown \<Rightarrow> ''An unknown error occurred.'')"

text \<open>
  \<open>handleSearch\<close> in the two parts that its first \<open>await\<close> separates.

  \<open>handleSearch_start\<close> is what runs when the query is submitted: it sets the flags,
  appends the user message, and leaves a pending search, which holds on to the query and
  to the arrays \<open>videos\<close> and \<open>videosToSearch\<close> of the render it was started in. \<open>t0\<close> is
  the reading of \<open>Date.now()\<close>.
\<close>

record pendingSearch =
  ps_query :: string
  ps_videos :: "uivideo list"
  ps_videosToSearch :: "uivideo list"

definition handleSearch_start :: "nat \<Rightarrow> app \<Rightarrow> string \<Rightarrow> app \<times> pendingSearch" where
  "handleSearch_start t0 s query =
     (let userMessage = \<lparr>msg_id = ''msg-'' @ String_nat t0, msg_sender = SenderUser,
                         msg_text = query, msg_videos = None\<rparr>
      in (s\<lparr>isLoading := True, searchActive := True, error := None,
            chatHistory := chatHistory s @ [userMessage]\<rparr>,
          \<lparr>ps_query = query, ps_videos = videos s,
           ps_videosToSearch = videosToSearch (selectedFaceIds s) (videos s)\<rparr>))"

text \<open>
  \<open>handleSearch_finish\<close> is what runs when the awaited calls have settled, on the state
  as it is then: the state setters append to, and overwrite in, whatever other handlers
  have made of the state in the meantime. \<open>t1\<close> is the second reading of \<open>Date.now()\<close>.
\<close>

definition handleSearch_finish ::
  "env \<Rightarrow> nat \<Rightarrow> nat \<Rightarrow> pendingSearch \<Rightarrow> app \<Rightarrow> app \<times> nat" where
  "handleSearch_finish ev n t1 p s =
     (case findMatchingVideos ev n (ps_query p) (ps_videosToSearch p) of
        (Inr matchingIds, n1) \<Rightarrow>
          let matchingVideos = filter (\<lambda>v. video_id v \<in> set matchingIds) (ps_videos p);
              (aiResponseText, n2) =
                generateChatResponse ev n1 (ps_query p) (length matchingVideos);
              aiMessage = \<lparr>msg_id = ''msg-'' @ String_nat (t1 + 1), msg_sender = SenderAi,
                           msg_text = aiResponseText, msg_videos = Some matchingVideos\<rparr>
          in (s\<lparr>chatHistory := chatHistory s @ [aiMessage], isLoading := False\<rparr>, n2)
      | (Inl err, n1) \<Rightarrow>
          let errorMessage = errorMessageOf err;
              aiMessage = \<lparr>msg_id = ''msg-'' @ String_nat (t1 + 1), msg_sender = SenderAi,
                           msg_text = ''Sorry, I encountered an error: '' @ errorMessage,
                           msg_videos = None\<rparr>
          in (s\<lparr>error := Some errorMessage, chatHistory := chatHistory s @ [aiMessage],
                isLoading := False\<rparr>, n1))"

text \<open>A search that no other handler runs into: both parts, one after the other.\<close>

definition handleSearch :: "env \<Rightarrow> nat \<Rightarrow> nat \<Rightarrow> nat \<Rightarrow> app \<Rightarrow> string \<Rightarrow> app \<times> nat" where
  "handleSearch ev n t0 t1 s query =
     (case handleSearch_start t0 s query of (s1, p) \<Rightarrow> handleSearch_finish ev n t1 p s1)"

text \<open>
  \<open>Array.prototype.sort\<close> with the comparator \<open>(a, b) => b.id.localeCompare(a.id)\<close>: a
  stable sort by descending id. \<open>localeCompare\<close> is taken to be the order of the
  strings by character code.
\<close>

definition sortByIdDesc :: "'a video_scheme list \<Rightarrow> 'a video_scheme list" where
  "sortByIdDesc vs = rev (sort_key video_id (rev vs))"

text \<open>
  \<open>displayedVideos\<close>. \<open>sort\<close> works in place: with no face selected, \<open>filtered\<close> is the
  state array \<open>videos\<close> itself, which is sorted too. The result is the displayed list
  and the array \<open>videos\<close> as it is afterwards.
\<close>

definition displayedVideos :: "uivideo list \<Rightarrow> string list \<Rightarrow> uivideo list \<times> uivideo list" where
  "displayedVideos vs sel =
     (if length sel > 0 then (sortByIdDesc (filter (hasSelectedFaces sel) vs), vs)
      else (sortByIdDesc vs, sortByIdDesc vs))"

definition handleClearSearch :: "app \<Rightarrow> app" where
  "handleClearSearch s = s\<lparr>searchActive := False, chatHistory := [], selectedFaceIds := []\<rparr>"

definition handleToggleFaceSelection :: "app \<Rightarrow> string \<Rightarrow> app" where
  "handleToggleFaceSelection s faceId =
     s\<lparr>selectedFaceIds :=
         (if faceId \<in> set (selectedFaceIds s) then filter (\<lambda>i. i \<noteq> faceId) (selectedFaceIds s)
          else selectedFaceIds s @ [faceId]),
       searchActive := False,
       chatHistory := []\<rparr>"

definition handleNameFace :: "db \<Rightarrow> app \<Rightarrow> string \<Rightarrow> string \<Rightarrow> db \<times> app" where
  "handleNameFace d s faceId n =
     (updateFaceName d faceId n,
      s\<lparr>allFaces := map (\<lambda>f. if face_id f = faceId then f\<lparr>face_name := Some n\<rparr> else f) (allFaces s)\<rparr>)"

section \<open>Notions of the specification\<close>

text \<open>The seek targets the specification names: \<open>i * duration / (n + 1)\<close> for \<open>i = 1..n\<close>.\<close>

definition spec_seekTimes :: "real \<Rightarrow> nat \<Rightarrow> real list" where
  "spec_seekTimes duration n = map (\<lambda>i. real i * duration / (real n + 1)) [1..<Suc n]"

text \<open>
  The foreign keys of the data model: the \<open>userId\<close> of every face and of every video is the
  key of a row of \<open>users\<close>, and every entry of a video's \<open>faceIds\<close> is the key of a face
  with the video's \<open>userId\<close>.
\<close>

definition spec_foreign_keys_hold :: "db \<Rightarrow> bool" where
  "spec_foreign_keys_hold d =
     ((\<forall>fc \<in> set (db_faces d). \<exists>u \<in> set (db_users d). user_id u = Some (face_userId fc))
      \<and> (\<forall>v \<in> set (db_videos d).
            (\<exists>u \<in> set (db_users d). user_id u = Some (video_userId v))
            \<and> (\<forall>fid \<in> set (faceIds v).
                  \<exists>fc \<in> set (db_faces d). face_id fc = fid \<and> face_userId fc = video_userId v)))"

text \<open>
  A chat history in which user and assistant turns alternate, starting with the user, and
  only assistant messages carry videos.
\<close>

fun spec_turns_alternate :: "chatMessage list \<Rightarrow> bool" where
  "spec_turns_alternate [] = True"
| "spec_turns_alternate [m] = False"
| "spec_turns_alternate (u # m # rest) =
     (msg_sender u = SenderUser \<and> msg_videos u = None \<and> msg_sender m = SenderAi
      \<and> spec_turns_alternate rest)"

text \<open>A chat history in which only assistant messages carry videos.\<close>

definition spec_only_assistant_has_videos :: "chatMessage list \<Rightarrow> bool" where
  "spec_only_assistant_has_videos h =
     list_all (\<lambda>m. msg_videos m = None \<or> msg_sender m = SenderAi) h"

section \<open>The states the program can be in\<close>

text \<open>
  The store and the provider's state after any sequence of the operations that write to
  either, each run to its end, starting from the empty store with nobody signed in.
\<close>

inductive reachable :: "db \<Rightarrow> auth \<Rightarrow> bool" where
  reach_start: "reachable empty_db \<lparr>currentUser = None, sessionUserId = None\<rparr>"
| reach_signup: "reachable d a \<Longrightarrow> signup ev d a e p = (Inr a', d') \<Longrightarrow> reachable d' a'"
| reach_signup_rejected: "reachable d a \<Longrightarrow> signup ev d a e p = (Inl err, d') \<Longrightarrow> reachable d' a"
| reach_login: "reachable d a \<Longrightarrow> login ev d a e p = Inr a' \<Longrightarrow> reachable d a'"
| reach_logout: "reachable d a \<Longrightarrow> reachable d (logout a)"
| reach_reload: "reachable d a \<Longrightarrow> reachable d (checkLoggedInUser parseInt d a)"
| reach_upload:
    "reachable d a \<Longrightarrow> handleUpload ev entropy d a s f r dur = (thrown, d', s') \<Longrightarrow> reachable d' a"
| reach_nameFace: "reachable d a \<Longrightarrow> handleNameFace d s faceId n = (d', s') \<Longrightarrow> reachable d' a"

section \<open>Example inputs\<close>

definition ex_users_db :: db where
  "ex_users_db = \<lparr>db_users = [\<lparr>user_id = Some 1, email = ''Ann@Example.com''\<rparr>],
     db_users_next = 2, db_videos = [], db_faces = []\<rparr>"


definition ex_file :: File where
  "ex_file = \<lparr>file_name = ''beach.mp4'', file_type = ''video/mp4'', file_bytes = ''...''\<rparr>"

definition ex_video_element :: videoElement where
  "ex_video_element =
     \<lparr>ve_duration = Fin 26, ve_seek = (\<lambda>t. Some (if t < 13 then ''early'' else ''late''))\<rparr>"

definition ex_stalling_element :: videoElement where
  "ex_stalling_element =
     \<lparr>ve_duration = Fin 26, ve_seek = (\<lambda>t. if t \<le> 20 then Some ''frame'' else None)\<rparr>"

text \<open>The JSON text of an array with the one string \<open>vid-5-b\<close>.\<close>

definition ex_ids_json :: string where
  "ex_ids_json = ''['' @ [CHR 0x22] @ ''vid-5-b'' @ [CHR 0x22] @ '']''"

text \<open>A video element that reports no duration, as for a stream of unknown length.\<close>

definition ex_endless_element :: videoElement where
  "ex_endless_element = \<lparr>ve_duration = Infinity, ve_seek = (\<lambda>t. None)\<rparr>"

text \<open>
  Case mapping and trimming for the examples, on strings of Latin-1 characters: the
  letters are A to Z and the accented ones from 0xC0 to 0xDE (without the multiplication
  sign), each 32 below its lower-case form; white space is the six ASCII characters and
  the no-break space 0xA0.
\<close>

definition ex_isUpper :: "char \<Rightarrow> bool" where
  "ex_isUpper c =
     (let n = (of_char c :: nat) in (65 \<le> n \<and> n \<le> 90) \<or> (192 \<le> n \<and> n \<le> 222 \<and> n \<noteq> 215))"

definition ex_isLower :: "char \<Rightarrow> bool" where
  "ex_isLower c =
     (let n = (of_char c :: nat) in (97 \<le> n \<and> n \<le> 122) \<or> (224 \<le> n \<and> n \<le> 254 \<and> n \<noteq> 247))"

definition ex_toLowerCase :: "string \<Rightarrow> string" where
  "ex_toLowerCase s = map (\<lambda>c. if ex_isUpper c then char_of ((of_char c :: nat) + 32) else c) s"

definition ex_toUpperCase :: "string \<Rightarrow> string" where
  "ex_toUpperCase s = map (\<lambda>c. if ex_isLower c then char_of ((of_char c :: nat) - 32) else c) s"

definition ex_isWhiteSpace :: "char \<Rightarrow> bool" where
  "ex_isWhiteSpace c = ((of_char c :: nat) \<in> {9, 10, 11, 12, 13, 32, 160})"

definition ex_trim :: "string \<Rightarrow> string" where
  "ex_trim s = rev (dropWhile ex_isWhiteSpace (rev (dropWhile ex_isWhiteSpace s)))"

text \<open>
  For the examples, the collection of \<open>equalsIgnoreCase\<close> holds the keys between the
  upper-case and the lower-case form of the needle whose own lower-case form is the
  needle's.
\<close>

definition ex_ignoreCaseAlgorithm :: "string \<Rightarrow> string \<Rightarrow> string \<Rightarrow> bool" where
  "ex_ignoreCaseAlgorithm upperNeedle lowerNeedle key =
     (upperNeedle \<le> key \<and> key \<le> lowerNeedle \<and> ex_toLowerCase key = lowerNeedle)"

text \<open>A browser in which everything works, around a given video element and AI endpoint.\<close>

definition ex_browser :: "videoElement \<Rightarrow> (nat \<Rightarrow> ai_request \<Rightarrow> exn + ai_response) \<Rightarrow> env" where
  "ex_browser v ai =
     \<lparr>generateContent = ai,
      JSON_parse = (\<lambda>s. if s = ''[]'' then Some (JArray [])
                        else if s = ex_ids_json then Some (JArray [JString ''vid-5-b''])
                        else None),
      trim = ex_trim,
      toLowerCase = ex_toLowerCase,
      toUpperCase = ex_toUpperCase,
      ignoreCaseAlgorithm = ex_ignoreCaseAlgorithm,
      storeReadError = (\<lambda>i. None),
      canvasContext = True,
      loadMetadata = (\<lambda>f. Some v),
      loadImage = (\<lambda>s. Some \<lparr>img_width = 640, img_height = 480, img_data = s\<rparr>),
      drawCrop = (\<lambda>img sx sy sw sh. ''crop-of-'' @ img_data img),
      numberToString = (\<lambda>t. String_nat (nat \<lfloor>t\<rfloor>)),
      createObjectURL = (\<lambda>f. ''blob:'' @ file_name f)\<rparr>"

text \<open>An endpoint that rejects every request.\<close>

definition ai_down :: "nat \<Rightarrow> ai_request \<Rightarrow> exn + ai_response" where
  "ai_down n r = Inl (Error ''503'')"

text \<open>
  A reply to the analysis request that reports three faces: one in frame 1, one in a frame
  7 that a two-frame array does not have, one with a negative index.
\<close>

definition ex_face_entries :: "faceEntry list" where
  "ex_face_entries =
     [\<lparr>frameIndex = 1, fe_description = ''woman with glasses'',
       fe_box = \<lparr>y_min = 0.1, x_min = 0.2, y_max = 0.5, x_max = 0.6\<rparr>\<rparr>,
      \<lparr>frameIndex = 7, fe_description = ''man with a beard'',
       fe_box = \<lparr>y_min = 0, x_min = 0, y_max = 1, x_max = 1\<rparr>\<rparr>,
      \<lparr>frameIndex = - 1, fe_description = ''child'',
       fe_box = \<lparr>y_min = 0, x_min = 0, y_max = 1, x_max = 1\<rparr>\<rparr>]"

definition ex_call :: functionCall where
  "ex_call =
     \<lparr>fc_name = ''extractVideoDetails'',
      fc_args = \<lparr>arg_description = Some ''A walk on the beach'',
                 arg_faces = Some ex_face_entries,
                 arg_segments = Some [\<lparr>seg_timestamp = 3, seg_description = ''waves''\<rparr>],
                 arg_transcript = Some ''hello'',
                 arg_onScreenText = Some []\<rparr>\<rparr>"

definition ex_analysis_reply :: ai_response where
  "ex_analysis_reply = \<lparr>resp_text = None, resp_functionCalls = [ex_call]\<rparr>"

text \<open>An endpoint that answers every request.\<close>

definition ai_up :: "nat \<Rightarrow> ai_request \<Rightarrow> exn + ai_response" where
  "ai_up n r =
     (case r of
        SearchRequest q vs \<Rightarrow> Inr \<lparr>resp_text = Some ex_ids_json, resp_functionCalls = []\<rparr>
      | ChatRequest q c \<Rightarrow> Inr \<lparr>resp_text = Some '' Right this way. '', resp_functionCalls = []\<rparr>
      | AnalysisRequest frames dur \<Rightarrow> Inr ex_analysis_reply)"


definition ex_video_1 :: uivideo where
  "ex_video_1 =
     \<lparr>video_id = ''vid-1-a'', video_userId = 1, video_name = ''park.mp4'',
      video_file = \<lparr>file_name = ''park.mp4'', file_type = ''video/mp4'', file_bytes = ''..''\<rparr>,
      video_description = ''A dog in the park'', video_duration = Fin 10,
      faceIds = [''face-1-x''], segments = [], transcript = [], onScreenText = [],
      url = ''blob:park.mp4''\<rparr>"

definition ex_video_2 :: uivideo where
  "ex_video_2 =
     \<lparr>video_id = ''vid-5-b'', video_userId = 1, video_name = ''beach.mp4'',
      video_file = ex_file,
      video_description = ''A walk on the beach'', video_duration = Fin 26,
      faceIds = [''face-1-x'', ''face-2-y''], segments = [], transcript = [], onScreenText = [],
      url = ''blob:beach.mp4''\<rparr>"

definition ex_app :: app where
  "ex_app = initial_app\<lparr>videos := [ex_video_1, ex_video_2]\<rparr>"


definition ex_ann :: user where
  "ex_ann = \<lparr>user_id = Some 1, email = ''Ann@Example.com''\<rparr>"

definition ex_signed_in :: auth where
  "ex_signed_in = \<lparr>currentUser = Some ex_ann, sessionUserId = Some ''1''\<rparr>"

definition ex_entropy :: "nat \<Rightarrow> nat \<times> string" where
  "ex_entropy k = (100 + k, ''k3x9q2'' @ String_nat k)"

definition ex_analysis_result :: videoAnalysisResult where
  "ex_analysis_result =
     \<lparr>vr_description = ''A walk on the beach'',
      vr_faces = [\<lparr>fc_description = ''woman with glasses'', fc_image = ''crop-of-f1''\<rparr>,
                  \<lparr>fc_description = ''man with a beard'', fc_image = ''crop-of-f0''\<rparr>],
      vr_segments = [\<lparr>seg_timestamp = 3, seg_description = ''waves''\<rparr>],
      vr_transcript = ''hello'', vr_onScreenText = []\<rparr>"





text \<open>The environment of the examples, and one whose store rejects the reads.\<close>

definition ex_env :: env where
  "ex_env = ex_browser ex_video_element ai_up"


text \<open>A search for \<open>beach\<close> started in the example state, and the state right after its start.\<close>

definition ex_started :: app where
  "ex_started = fst (handleSearch_start 1000 ex_app ''beach'')"

definition ex_pending :: pendingSearch where
  "ex_pending = snd (handleSearch_start 1000 ex_app ''beach'')"

section \<open>The user store and authentication\<close>

lemma find_SomeD: "find P xs = Some x \<Longrightarrow> x \<in> set xs \<and> P x"
  by (induction xs) (auto split: if_splits)



lemma getUserByEmail_SomeD:
  "getUserByEmail ev d e = Some u \<Longrightarrow> u \<in> set (db_users d) \<and> equalsIgnoreCase ev e (email u)"
  unfolding getUserByEmail_def by (drule find_SomeD) simp

lemma keys_ok_user_id:
  "keys_ok d \<Longrightarrow> u \<in> set (db_users d) \<Longrightarrow> \<exists>k. user_id u = Some k \<and> 0 < k \<and> k < db_users_next d"
  by (auto simp: keys_ok_def list_all_iff split: option.splits)


lemma createUser_InrD:
  "createUser d e = Inr (k, d') \<Longrightarrow>
   k = db_users_next d \<and>
   d' = d\<lparr>db_users := db_users d @ [\<lparr>user_id = Some (db_users_next d), email = e\<rparr>],
          db_users_next := Suc (db_users_next d)\<rparr>"
  by (auto simp: createUser_def split: if_splits)


lemma login_InrD:
  "login ev d a e p = Inr a' \<Longrightarrow>
   \<exists>u i. getUserByEmail ev d e = Some u \<and> user_id u = Some i \<and> 0 < i \<and>
      a' = a\<lparr>currentUser := Some u, sessionUserId := Some (String_nat i)\<rparr>"
  unfolding login_def by (simp split: option.splits if_splits)




text \<open>The empty store is well formed, and \<open>signup\<close>, the only writer of \<open>users\<close>, keeps it so.\<close>

lemma keys_ok_empty: "keys_ok empty_db"
  by (simp add: keys_ok_def empty_db_def)

lemma keys_ok_createUser:
  assumes "keys_ok d" "createUser d e = Inr (k, d')"
  shows "keys_ok d'"
proof -
  have "Some (db_users_next d) \<notin> user_id ` set (db_users d)"
    using keys_ok_user_id[OF assms(1)] by fastforce
  with assms(1) show ?thesis
    using createUser_InrD[OF assms(2)]
    unfolding keys_ok_def list_all_iff by (auto split: option.splits)
qed

lemma signup_db:
  "snd (signup ev d a e p) = d \<or>
   (\<exists>k. createUser d e = Inr (k, snd (signup ev d a e p)))"
  by (auto simp: signup_def split: option.splits sum.splits)

lemma signup_keys_ok:
  assumes "keys_ok d"
  shows "keys_ok (snd (signup ev d a e p))"
  using signup_db[of ev d a e p] assms keys_ok_createUser[OF assms] by metis

text \<open>
  Claim C1. \<open>login\<close> only looks the email up and never reads the password: in every state
  of the store and of the provider, for every email, any two passwords give the same
  outcome, be it the same signed-in state or the same error.
\<close>

theorem login_ignores_password: "login ev d a e password1 = login ev d a e password2"
  by (simp add: login_def)





section \<open>Frame extraction\<close>

lemma captureLoop_all_seeked:
  assumes "\<forall>j. i \<le> j \<and> j \<le> n \<longrightarrow> ve_seek v (real j * interval) \<noteq> None"
  shows "\<exists>fs. captureLoop ev v interval i n frames = Inr (frames @ fs)
            \<and> map Some fs = map (\<lambda>j. ve_seek v (real j * interval)) [i..<Suc n]"
  using assms
proof (induction ev v interval i n frames rule: captureLoop.induct)
  case (1 ev v interval i frameCount frames)
  show ?case
  proof (cases "i \<le> frameCount")
    case False
    then show ?thesis by (simp add: captureLoop.simps)
  next
    case True
    with "1.prems" obtain b where b: "ve_seek v (real i * interval) = Some b" by auto
    then have c: "captureFrameAt ev v (real i * interval) = Inr b"
      by (simp add: captureFrameAt_def)
    from "1.prems" have "\<forall>j. Suc i \<le> j \<and> j \<le> frameCount \<longrightarrow> ve_seek v (real j * interval) \<noteq> None"
      by auto
    from "1.IH"[OF True c this] obtain fs where
      fs: "captureLoop ev v interval (Suc i) frameCount (frames @ [b]) = Inr ((frames @ [b]) @ fs)"
          "map Some fs = map (\<lambda>j. ve_seek v (real j * interval)) [Suc i..<Suc frameCount]"
      by blast
    have "[i..<Suc frameCount] = i # [Suc i..<Suc frameCount]"
      using True by (simp add: upt_conv_Cons)
    with fs b c True show ?thesis
      by (subst captureLoop.simps) (auto intro: exI[of _ "b # fs"])
  qed
qed

lemma captureLoop_timeout:
  assumes "[i..<Suc n] = js @ k # rest"
    and "\<forall>j\<in>set js. ve_seek v (real j * interval) \<noteq> None"
    and "ve_seek v (real k * interval) = None"
  shows "captureLoop ev v interval i n frames =
           Inl (Error (''Seek timed out at '' @ numberToString ev (real k * interval) @ ''s''))"
  using assms
proof (induction js arbitrary: i frames)
  case Nil
  then have "i = k" "i \<le> n" by (auto simp: upt_eq_Cons_conv simp del: upt_Suc)
  with Nil show ?case
    by (subst captureLoop.simps) (simp add: captureFrameAt_def)
next
  case (Cons j js)
  then have i: "i = j" "i \<le> n" "[Suc i..<Suc n] = js @ k # rest"
    by (auto simp: upt_eq_Cons_conv simp del: upt_Suc)
  from Cons.prems obtain b where b: "ve_seek v (real i * interval) = Some b" using i by auto
  have "captureLoop ev v interval (Suc i) n (frames @ [b]) =
           Inl (Error (''Seek timed out at '' @ numberToString ev (real k * interval) @ ''s''))"
    using Cons.IH[OF i(3)] Cons.prems by simp
  with i b show ?case
    by (subst captureLoop.simps) (simp add: captureFrameAt_def)
qed

lemma spec_seekTimes_interval:
  "spec_seekTimes d n = map (\<lambda>j. real j * (d / (real n + 1))) [1..<Suc n]"
  by (simp add: spec_seekTimes_def)

lemma spec_seekTimes_increasing:
  assumes "0 < d"
  shows "sorted_wrt (<) (spec_seekTimes d n)"
proof -
  have "sorted_wrt (\<lambda>i j. real i * d / (real n + 1) < real j * d / (real n + 1)) [1..<Suc n]"
    by (rule sorted_wrt_mono_rel[of _ "(<)"])
       (use assms in \<open>auto simp: divide_strict_right_mono simp del: upt_Suc\<close>)
  then show ?thesis by (simp add: spec_seekTimes_def sorted_wrt_map)
qed

text \<open>
  Claim C4. For a video whose metadata loads with a finite, positive duration \<open>d\<close>, and a
  frame count \<open>n\<close>: the \<open>n\<close> seek targets \<open>i * d / (n + 1)\<close>, \<open>i = 1..n\<close>, increase
  strictly; when every seek completes before its timeout, \<open>extractFrames\<close> resolves with
  exactly the \<open>n\<close> frames captured at these targets, in this order, and with \<open>d\<close>; when
  a seek times out after all earlier ones completed, it rejects with the error of that
  seek, and no later target is sought. With a duration that is 0, infinite or NaN it
  rejects before any seek.
\<close>

theorem extractFrames_seek_and_capture:
  assumes "canvasContext ev" and "loadMetadata ev f = Some v"
  shows "(ve_duration v = Fin d \<and> 0 < d \<longrightarrow>
            length (spec_seekTimes d n) = n
          \<and> sorted_wrt (<) (spec_seekTimes d n)
          \<and> ((\<forall>t \<in> set (spec_seekTimes d n). ve_seek v t \<noteq> None) \<longrightarrow>
               (\<exists>frames. extractFrames ev f n = Inr (frames, Fin d)
                  \<and> map Some frames = map (ve_seek v) (spec_seekTimes d n)))
          \<and> (\<forall>ts t rest.
                spec_seekTimes d n = ts @ t # rest \<and> (\<forall>t' \<in> set ts. ve_seek v t' \<noteq> None)
                \<and> ve_seek v t = None \<longrightarrow>
                extractFrames ev f n =
                  Inl (Error (''Seek timed out at '' @ numberToString ev t @ ''s''))))
       \<and> (ve_duration v = Fin 0 \<or> \<not> isFinite (ve_duration v) \<longrightarrow>
            extractFrames ev f n = Inl (Error ''Video has no duration or is invalid.''))"
proof (intro conjI impI allI)
  assume "ve_duration v = Fin 0 \<or> \<not> isFinite (ve_duration v)"
  then show "extractFrames ev f n = Inl (Error ''Video has no duration or is invalid.'')"
    using assms by (auto simp: extractFrames_def isFinite_def Let_def split: number.splits)
next
  assume "ve_duration v = Fin d \<and> 0 < d"
  show "length (spec_seekTimes d n) = n" by (simp add: spec_seekTimes_def)
next
  assume "ve_duration v = Fin d \<and> 0 < d"
  then show "sorted_wrt (<) (spec_seekTimes d n)" by (simp add: spec_seekTimes_increasing)
next
  assume d: "ve_duration v = Fin d \<and> 0 < d"
    and ok: "\<forall>t \<in> set (spec_seekTimes d n). ve_seek v t \<noteq> None"
  from ok have "\<forall>j. 1 \<le> j \<and> j \<le> n \<longrightarrow> ve_seek v (real j * (d / (real n + 1))) \<noteq> None"
    by (auto simp: spec_seekTimes_def)
  from captureLoop_all_seeked[OF this, of ev "[]"] obtain fs where
    fs: "captureLoop ev v (d / (real n + 1)) 1 n [] = Inr fs"
        "map Some fs = map (\<lambda>j. ve_seek v (real j * (d / (real n + 1)))) [1..<Suc n]"
    by auto
  have "extractFrames ev f n = Inr (fs, Fin d)"
    using assms d fs(1) by (simp add: extractFrames_def isFinite_def finite_value_def)
  moreover have "map Some fs = map (ve_seek v) (spec_seekTimes d n)"
    using fs(2) by (simp add: spec_seekTimes_def)
  ultimately show "\<exists>frames. extractFrames ev f n = Inr (frames, Fin d)
                  \<and> map Some frames = map (ve_seek v) (spec_seekTimes d n)" by blast
next
  fix ts t rest
  assume d: "ve_duration v = Fin d \<and> 0 < d"
    and h: "spec_seekTimes d n = ts @ t # rest \<and> (\<forall>t' \<in> set ts. ve_seek v t' \<noteq> None)
                \<and> ve_seek v t = None"
  let ?g = "\<lambda>j. real j * (d / (real n + 1))"
  from h have "map ?g [1..<Suc n] = ts @ t # rest" by (simp add: spec_seekTimes_interval)
  then obtain js k rs where
    jk: "[1..<Suc n] = js @ k # rs" "ts = map ?g js" "t = ?g k"
    by (auto simp: map_eq_append_conv map_eq_Cons_conv)
  from h jk have "\<forall>j\<in>set js. ve_seek v (?g j) \<noteq> None" "ve_seek v (?g k) = None" by auto
  from captureLoop_timeout[OF jk(1) this, of ev "[]"] jk(3)
  show "extractFrames ev f n = Inl (Error (''Seek timed out at '' @ numberToString ev t @ ''s''))"
    using assms d by (simp add: extractFrames_def isFinite_def finite_value_def)
qed

theorem extractFrames_seek_and_capture_witness:
  "canvasContext (ex_browser ex_video_element ai_down)
   \<and> loadMetadata (ex_browser ex_video_element ai_down) ex_file = Some ex_video_element
   \<and> ve_duration ex_video_element = Fin 26
   \<and> list_all (\<lambda>t. ve_seek ex_video_element t \<noteq> None) (spec_seekTimes 26 12)
   \<and> spec_seekTimes 26 12 = [2, 4, 6, 8, 10, 12, 14, 16, 18, 20, 22, 24]
   \<and> (\<exists>frames. extractFrames (ex_browser ex_video_element ai_down) ex_file 12 = Inr (frames, Fin 26)
         \<and> map Some frames = map (ve_seek ex_video_element) (spec_seekTimes 26 12))
   \<and> ve_seek ex_stalling_element 22 = None
   \<and> extractFrames (ex_browser ex_stalling_element ai_down) ex_file 12 =
        Inl (Error (''Seek timed out at '' @ ''22'' @ ''s''))
   \<and> \<not> isFinite (ve_duration ex_endless_element)
   \<and> extractFrames (ex_browser ex_endless_element ai_down) ex_file 12 =
        Inl (Error ''Video has no duration or is invalid.'')"
proof -
  have c: "canvasContext (ex_browser v ai_down)" "loadMetadata (ex_browser v ai_down) ex_file = Some v" for v
    by (simp_all add: ex_browser_def)
  have d: "ve_duration ex_video_element = Fin 26" "ve_duration ex_stalling_element = Fin 26"
    by (simp_all add: ex_video_element_def ex_stalling_element_def)
  have ts: "spec_seekTimes 26 12 = [2, 4, 6, 8, 10, 12, 14, 16, 18, 20, 22, 24]" by code_simp
  have ok: "\<forall>t \<in> set (spec_seekTimes 26 12). ve_seek ex_video_element t \<noteq> None"
    by (simp add: ex_video_element_def)
  have split: "spec_seekTimes 26 12 = [2, 4, 6, 8, 10, 12, 14, 16, 18, 20] @ 22 # [24]"
    by (simp add: ts)
  have before: "\<forall>t' \<in> set [2, 4, 6, 8, 10, 12, 14, 16, 18, 20 :: real]. ve_seek ex_stalling_element t' \<noteq> None"
    by (simp add: ex_stalling_element_def)
  have stall: "ve_seek ex_stalling_element 22 = None" by (simp add: ex_stalling_element_def)
  have ns: "numberToString (ex_browser ex_stalling_element ai_down) 22 = ''22''" by code_simp
  from extractFrames_seek_and_capture[OF c, of ex_video_element 26 12] d ok
  have 1: "\<exists>frames. extractFrames (ex_browser ex_video_element ai_down) ex_file 12 = Inr (frames, Fin 26)
         \<and> map Some frames = map (ve_seek ex_video_element) (spec_seekTimes 26 12)"
    by simp
  have pos: "(0::real) < 26" by simp
  note T = extractFrames_seek_and_capture[OF c, of ex_stalling_element 26 12,
      THEN conjunct1, THEN mp, OF conjI[OF d(2) pos]]
  note 2 = T[THEN conjunct2, THEN conjunct2, THEN conjunct2, THEN spec, THEN spec, THEN spec,
      THEN mp, OF conjI[OF split conjI[OF before stall]]]
  from ok have ok': "list_all (\<lambda>t. ve_seek ex_video_element t \<noteq> None) (spec_seekTimes 26 12)"
    by (simp add: list_all_iff)
  have inf: "\<not> isFinite (ve_duration ex_endless_element)"
    by (simp add: ex_endless_element_def isFinite_def)
  note 3 = extractFrames_seek_and_capture[OF c, of ex_endless_element 26 12,
      THEN conjunct2, THEN mp, OF disjI2[OF inf]]
  show ?thesis using c d ts ok' 1 2 3 stall inf unfolding ns by simp
qed

section \<open>Video analysis\<close>

lemma promiseAll_Inr_iff: "promiseAll ps = Inr xs \<longleftrightarrow> ps = map Inr xs"
proof (induction ps arbitrary: xs rule: promiseAll.induct)
  case 1
  then show ?case by auto
next
  case (2 err ps)
  then show ?case by auto
next
  case (3 x ps)
  show ?case
  proof (cases "promiseAll ps")
    case (Inl e)
    with 3[of "tl xs"] show ?thesis by (cases xs) auto
  next
    case (Inr ys)
    with 3[of ys] 3[of "tl xs"] show ?thesis by (cases xs) auto
  qed
qed

lemma cropEntry_missing:
  "frameAt base64Frames (frameIndex fe) = None \<Longrightarrow> cropEntry ev base64Frames fe = Inr None"
  by (simp add: cropEntry_def)

lemma cropEntry_SomeD:
  assumes "cropEntry ev base64Frames fe = Inr (Some c)"
  shows "0 \<le> frameIndex fe \<and> frameIndex fe < int (length base64Frames)
       \<and> base64Frames ! nat (frameIndex fe) \<noteq> []
       \<and> fc_description c = fe_description fe
       \<and> cropFace ev (base64Frames ! nat (frameIndex fe)) (fe_box fe) = Inr (fc_image c)"
  using assms
  by (auto simp: cropEntry_def frameAt_def split: option.splits if_splits sum.splits)

lemma cropEntry_Inr_cases:
  "cropEntry ev base64Frames fe = Inr c \<Longrightarrow>
     (c = None) = (frameAt base64Frames (frameIndex fe) \<in> {None, Some []})"
  by (auto simp: cropEntry_def split: option.splits if_splits sum.splits)

lemma kept_crops:
  assumes "map (cropEntry ev base64Frames) fes = map Inr cs"
  shows "list_all2
           (\<lambda>c fe. 0 \<le> frameIndex fe \<and> frameIndex fe < int (length base64Frames)
                  \<and> fc_description c = fe_description fe
                  \<and> cropFace ev (base64Frames ! nat (frameIndex fe)) (fe_box fe) = Inr (fc_image c))
           (List.map_filter (\<lambda>c. c) cs)
           (filter (\<lambda>fe. frameAt base64Frames (frameIndex fe) \<notin> {None, Some []}) fes)"
  using assms
proof (induction fes arbitrary: cs)
  case Nil
  then show ?case by simp
next
  case (Cons fe fes)
  then obtain c cs' where cs: "cs = c # cs'" "cropEntry ev base64Frames fe = Inr c"
    "map (cropEntry ev base64Frames) fes = map Inr cs'"
    by (cases cs) auto
  note IH = Cons.IH[OF cs(3)]
  show ?case
  proof (cases c)
    case None
    with cropEntry_Inr_cases[OF cs(2)] IH cs(1) show ?thesis
      by auto
  next
    case (Some x)
    with cropEntry_Inr_cases[OF cs(2)] cropEntry_SomeD[of ev base64Frames fe x] cs IH
    show ?thesis by auto
  qed
qed

text \<open>What lines 272 to 286 compute from the reported faces.\<close>

lemma crops_without_missing:
  assumes "\<forall>fe \<in> set fes. \<not> keep fe \<longrightarrow> g fe = Inr None"
  shows "(case promiseAll (map g fes) of Inl err \<Rightarrow> None | Inr cs \<Rightarrow> Some (List.map_filter (\<lambda>c. c) cs))
       = (case promiseAll (map g (filter keep fes)) of Inl err \<Rightarrow> None
          | Inr cs \<Rightarrow> Some (List.map_filter (\<lambda>c. c) cs))"
  using assms
proof (induction fes)
  case Nil then show ?case by simp
next
  case (Cons fe fes)
  then have IH: "(case promiseAll (map g fes) of Inl err \<Rightarrow> None | Inr cs \<Rightarrow> Some (List.map_filter (\<lambda>c. c) cs))
       = (case promiseAll (map g (filter keep fes)) of Inl err \<Rightarrow> None
          | Inr cs \<Rightarrow> Some (List.map_filter (\<lambda>c. c) cs))" by simp
  show ?case
  proof (cases "g fe")
    case (Inl e)
    with Cons.prems show ?thesis by auto
  next
    case (Inr c)
    show ?thesis
    proof (cases "keep fe")
      case True
      with Inr IH show ?thesis
        by (cases c) (auto simp: List.map_filter_simps split: sum.splits)
    next
      case False
      with Cons.prems have "g fe = Inr None" by simp
      with False IH show ?thesis
        by (auto split: sum.splits)
    qed
  qed
qed

lemma cropFace_env: "cropFace (ev\<lparr>generateContent := ai\<rparr>) frame b = cropFace ev frame b"
  by (simp add: cropFace_def split: option.splits)

lemma cropEntry_env:
  "cropEntry (ev\<lparr>generateContent := ai\<rparr>) = cropEntry ev"
  by (intro ext) (simp add: cropEntry_def cropFace_env split: option.splits)

lemma analyzeVideoContent_reply:
  assumes "generateContent ev n (AnalysisRequest base64Frames dur) = Inr resp"
    and "resp_functionCalls resp = call # rest"
    and "arg_faces (fc_args call) = Some fes"
  shows "analyzeVideoContent ev n base64Frames dur =
     (if fc_name call = ''extractVideoDetails''
         \<and> arg_description (fc_args call) \<notin> {None, Some []}
         \<and> arg_segments (fc_args call) \<noteq> None \<and> arg_transcript (fc_args call) \<noteq> None
         \<and> arg_onScreenText (fc_args call) \<noteq> None
      then (case (case promiseAll (map (cropEntry ev base64Frames) fes) of
                    Inl err \<Rightarrow> None | Inr cs \<Rightarrow> Some (List.map_filter (\<lambda>c. c) cs)) of
              None \<Rightarrow> (Inl (Error ''Failed to analyze video content with face detection.''), Suc n)
            | Some crops \<Rightarrow>
                (Inr \<lparr>vr_description = the (arg_description (fc_args call)),
                      vr_faces = crops,
                      vr_segments = the (arg_segments (fc_args call)),
                      vr_transcript = the (arg_transcript (fc_args call)),
                      vr_onScreenText = the (arg_onScreenText (fc_args call))\<rparr>, Suc n))
      else (Inl (Error ''Failed to analyze video content with face detection.''), Suc n))"
  using assms
  by (auto simp: analyzeVideoContent_def Let_def split: option.splits sum.splits)

text \<open>
  Claim C10. In \<open>analyzeVideoContent\<close>, a reported face whose \<open>frameIndex\<close> is not an
  index of the frames array is dropped without an error: its entry of the crop step is
  \<open>null\<close> and \<open>cropFace\<close> is not called for it; the faces returned are, in order, the
  crops of the reported faces that have a non-empty frame, each cut from the frame at its
  index; and the whole outcome is the one the call has when the faces without a frame
  are not reported at all.
\<close>

theorem analyzeVideoContent_drops_missing_frames:
  assumes "generateContent ev n (AnalysisRequest base64Frames dur) = Inr resp"
    and "resp_functionCalls resp = call # rest"
    and "arg_faces (fc_args call) = Some fes"
  shows "(\<forall>fe \<in> set fes. frameAt base64Frames (frameIndex fe) = None \<longrightarrow>
            cropEntry ev base64Frames fe = Inr None)
       \<and> (\<forall>r n'. analyzeVideoContent ev n base64Frames dur = (Inr r, n') \<longrightarrow>
            list_all2
              (\<lambda>c fe. 0 \<le> frameIndex fe \<and> frameIndex fe < int (length base64Frames)
                     \<and> fc_description c = fe_description fe
                     \<and> cropFace ev (base64Frames ! nat (frameIndex fe)) (fe_box fe) = Inr (fc_image c))
              (vr_faces r)
              (filter (\<lambda>fe. frameAt base64Frames (frameIndex fe) \<notin> {None, Some []}) fes))
       \<and> analyzeVideoContent ev n base64Frames dur =
           analyzeVideoContent
             (ev\<lparr>generateContent := \<lambda>k q. Inr (resp\<lparr>resp_functionCalls :=
                call\<lparr>fc_args := (fc_args call)\<lparr>arg_faces :=
                  Some (filter (\<lambda>fe. frameAt base64Frames (frameIndex fe) \<noteq> None) fes)\<rparr>\<rparr> # rest\<rparr>)\<rparr>)
             n base64Frames dur"
proof (intro conjI ballI allI impI)
  fix fe :: faceEntry assume "frameAt base64Frames (frameIndex fe) = None"
  then show "cropEntry ev base64Frames fe = Inr None" by (rule cropEntry_missing)
next
  fix r n' assume ok: "analyzeVideoContent ev n base64Frames dur = (Inr r, n')"
  then obtain cs where cs: "promiseAll (map (cropEntry ev base64Frames) fes) = Inr cs"
    "vr_faces r = List.map_filter (\<lambda>c. c) cs"
    unfolding analyzeVideoContent_reply[OF assms]
    by (auto split: if_splits sum.splits option.splits)
  from cs(1) have "map (cropEntry ev base64Frames) fes = map Inr cs"
    by (simp add: promiseAll_Inr_iff)
  from kept_crops[OF this] cs(2)
  show "list_all2
              (\<lambda>c fe. 0 \<le> frameIndex fe \<and> frameIndex fe < int (length base64Frames)
                     \<and> fc_description c = fe_description fe
                     \<and> cropFace ev (base64Frames ! nat (frameIndex fe)) (fe_box fe) = Inr (fc_image c))
              (vr_faces r)
              (filter (\<lambda>fe. frameAt base64Frames (frameIndex fe) \<notin> {None, Some []}) fes)"
    by simp
next
  let ?keep = "\<lambda>fe. frameAt base64Frames (frameIndex fe) \<noteq> None"
  let ?call = "call\<lparr>fc_args := (fc_args call)\<lparr>arg_faces := Some (filter ?keep fes)\<rparr>\<rparr>"
  let ?resp = "resp\<lparr>resp_functionCalls := ?call # rest\<rparr>"
  let ?ev = "ev\<lparr>generateContent := \<lambda>k q. Inr ?resp\<rparr>"
  have 1: "generateContent ?ev n (AnalysisRequest base64Frames dur) = Inr ?resp" by simp
  have 2: "resp_functionCalls ?resp = ?call # rest" by simp
  have 3: "arg_faces (fc_args ?call) = Some (filter ?keep fes)" by simp
  have eq: "(case promiseAll (map (cropEntry ev base64Frames) fes) of
                    Inl err \<Rightarrow> None | Inr cs \<Rightarrow> Some (List.map_filter (\<lambda>c. c) cs))
       = (case promiseAll (map (cropEntry ev base64Frames) (filter ?keep fes)) of
                    Inl err \<Rightarrow> None | Inr cs \<Rightarrow> Some (List.map_filter (\<lambda>c. c) cs))"
    by (rule crops_without_missing) (simp add: cropEntry_missing)
  show "analyzeVideoContent ev n base64Frames dur = analyzeVideoContent ?ev n base64Frames dur"
    unfolding analyzeVideoContent_reply[OF assms] analyzeVideoContent_reply[OF 1 2 3]
      cropEntry_env eq
    by (simp split: option.splits sum.splits)
qed

theorem analyzeVideoContent_drops_missing_frames_witness:
  "generateContent (ex_browser ex_video_element ai_up) 0 (AnalysisRequest [''f0'', ''f1''] (Fin 26)) =
     Inr ex_analysis_reply
   \<and> resp_functionCalls ex_analysis_reply = ex_call # []
   \<and> arg_faces (fc_args ex_call) = Some ex_face_entries
   \<and> map frameIndex ex_face_entries = [1, 7, - 1]
   \<and> map (cropEntry (ex_browser ex_video_element ai_up) [''f0'', ''f1'']) ex_face_entries =
       [Inr (Some \<lparr>fc_description = ''woman with glasses'', fc_image = ''crop-of-f1''\<rparr>),
        Inr None, Inr None]
   \<and> analyzeVideoContent (ex_browser ex_video_element ai_up) 0 [''f0'', ''f1''] (Fin 26) =
       (Inr \<lparr>vr_description = ''A walk on the beach'',
             vr_faces = [\<lparr>fc_description = ''woman with glasses'', fc_image = ''crop-of-f1''\<rparr>],
             vr_segments = [\<lparr>seg_timestamp = 3, seg_description = ''waves''\<rparr>],
             vr_transcript = ''hello'', vr_onScreenText = []\<rparr>, 1)
   \<and> list_all2
        (\<lambda>c fe. 0 \<le> frameIndex fe \<and> frameIndex fe < int (length [''f0'', ''f1''])
               \<and> fc_description c = fe_description fe
               \<and> cropFace (ex_browser ex_video_element ai_up) ([''f0'', ''f1''] ! nat (frameIndex fe)) (fe_box fe)
                   = Inr (fc_image c))
        [\<lparr>fc_description = ''woman with glasses'', fc_image = ''crop-of-f1''\<rparr>]
        (filter (\<lambda>fe. frameAt [''f0'', ''f1''] (frameIndex fe) \<notin> {None, Some []}) ex_face_entries)"
proof -
  let ?ev = "ex_browser ex_video_element ai_up"
  have h1: "generateContent ?ev 0 (AnalysisRequest [''f0'', ''f1''] (Fin 26)) = Inr ex_analysis_reply"
    by (simp add: ex_browser_def ai_up_def)
  have h2: "resp_functionCalls ex_analysis_reply = ex_call # []" by (simp add: ex_analysis_reply_def)
  have h3: "arg_faces (fc_args ex_call) = Some ex_face_entries" by (simp add: ex_call_def)
  have ix: "map frameIndex ex_face_entries = [1, 7, - 1]" by (simp add: ex_face_entries_def)
  have ce: "map (cropEntry ?ev [''f0'', ''f1'']) ex_face_entries =
       [Inr (Some \<lparr>fc_description = ''woman with glasses'', fc_image = ''crop-of-f1''\<rparr>),
        Inr None, Inr None]" by code_simp
  have r: "analyzeVideoContent ?ev 0 [''f0'', ''f1''] (Fin 26) =
       (Inr \<lparr>vr_description = ''A walk on the beach'',
             vr_faces = [\<lparr>fc_description = ''woman with glasses'', fc_image = ''crop-of-f1''\<rparr>],
             vr_segments = [\<lparr>seg_timestamp = 3, seg_description = ''waves''\<rparr>],
             vr_transcript = ''hello'', vr_onScreenText = []\<rparr>, 1)" by code_simp
  note T = analyzeVideoContent_drops_missing_frames[OF h1 h2 h3, THEN conjunct2, THEN conjunct1,
      THEN spec, THEN spec, THEN mp, OF r]
  from h1 h2 h3 ix ce r T show ?thesis by simp
qed

section \<open>The face filter\<close>

lemma hasSelectedFaces_iff: "hasSelectedFaces sel v \<longleftrightarrow> set sel \<subseteq> set (faceIds v)"
  by (auto simp: hasSelectedFaces_def list_all_iff)

lemma mset_sortByIdDesc: "mset (sortByIdDesc vs) = mset vs"
  by (simp add: sortByIdDesc_def)

lemma sortByIdDesc_descending: "sorted (rev (map video_id (sortByIdDesc vs)))"
  by (simp add: sortByIdDesc_def rev_map)

text \<open>
  Claim C6. With at least one face selected, the displayed library and the videos handed
  to the search (\<open>videosToSearch\<close>, the argument of \<open>findMatchingVideos\<close> in
  \<open>handleSearch\<close>) are exactly the videos whose \<open>faceIds\<close> contain every selected id;
  with none selected they are all the videos. The displayed list is in descending order
  of the video ids. That \<open>sort\<close> reorders the state array in place changes nothing
  of this.
\<close>

theorem face_filter_selects_and_orders:
  "(sel \<noteq> [] \<longrightarrow>
      mset (fst (displayedVideos vs sel)) = mset (filter (\<lambda>v. set sel \<subseteq> set (faceIds v)) vs)
      \<and> videosToSearch sel vs = filter (\<lambda>v. set sel \<subseteq> set (faceIds v)) vs)
   \<and> (sel = [] \<longrightarrow> mset (fst (displayedVideos vs sel)) = mset vs \<and> videosToSearch sel vs = vs)
   \<and> sorted (rev (map video_id (fst (displayedVideos vs sel))))
   \<and> mset (videosToSearch sel (snd (displayedVideos vs sel))) = mset (videosToSearch sel vs)"
  by (auto simp: displayedVideos_def videosToSearch_def mset_sortByIdDesc sortByIdDesc_descending
        hasSelectedFaces_iff[abs_def])

theorem face_filter_selects_and_orders_witness:
  "[''face-2-y''] \<noteq> []
   \<and> mset (fst (displayedVideos (videos ex_app) [''face-2-y''])) =
       mset (filter (\<lambda>v. set [''face-2-y''] \<subseteq> set (faceIds v)) (videos ex_app))
   \<and> fst (displayedVideos (videos ex_app) [''face-2-y'']) = [ex_video_2]
   \<and> videosToSearch [''face-2-y''] (videos ex_app) = [ex_video_2]
   \<and> mset (fst (displayedVideos (videos ex_app) [])) = mset (videos ex_app)
   \<and> fst (displayedVideos (videos ex_app) []) = [ex_video_2, ex_video_1]
   \<and> videosToSearch [] (videos ex_app) = [ex_video_1, ex_video_2]
   \<and> sorted (rev (map video_id (fst (displayedVideos (videos ex_app) []))))"
proof -
  have 1: "fst (displayedVideos (videos ex_app) [''face-2-y'']) = [ex_video_2]" by code_simp
  have 2: "fst (displayedVideos (videos ex_app) []) = [ex_video_2, ex_video_1]" by code_simp
  have 3: "videos ex_app = [ex_video_1, ex_video_2]" by (simp add: ex_app_def)
  have 4: "filter (\<lambda>v. set [''face-2-y''] \<subseteq> set (faceIds v)) (videos ex_app) = [ex_video_2]"
    by (simp add: 3 ex_video_1_def ex_video_2_def)
  from face_filter_selects_and_orders[where sel = "[''face-2-y'']" and vs = "videos ex_app"]
       face_filter_selects_and_orders[where sel = "[]" and vs = "videos ex_app"]
  show ?thesis unfolding 1 2 4 by (simp add: 3)
qed

section \<open>Search and chat\<close>




lemma handleSearch_start_eq:
  "handleSearch_start t0 s q =
     (s\<lparr>isLoading := True, searchActive := True, error := None,
        chatHistory := chatHistory s @
          [\<lparr>msg_id = ''msg-'' @ String_nat t0, msg_sender = SenderUser, msg_text = q,
            msg_videos = None\<rparr>]\<rparr>,
      \<lparr>ps_query = q, ps_videos = videos s,
       ps_videosToSearch = videosToSearch (selectedFaceIds s) (videos s)\<rparr>)"
  by (simp add: handleSearch_start_def)

lemma handleSearch_finish_failed:
  assumes "findMatchingVideos ev n (ps_query pend) (ps_videosToSearch pend) = (Inl err, n')"
  shows "handleSearch_finish ev n t1 pend s =
    (s\<lparr>error := Some (errorMessageOf err),
       chatHistory := chatHistory s @
         [\<lparr>msg_id = ''msg-'' @ String_nat (t1 + 1), msg_sender = SenderAi,
           msg_text = ''Sorry, I encountered an error: '' @ errorMessageOf err, msg_videos = None\<rparr>],
       isLoading := False\<rparr>, n')"
  using assms by (simp add: handleSearch_finish_def Let_def)

lemma handleSearch_finish_found:
  assumes "findMatchingVideos ev n (ps_query pend) (ps_videosToSearch pend) = (Inr ids, n')"
  shows "handleSearch_finish ev n t1 pend s =
    (s\<lparr>chatHistory := chatHistory s @
         [\<lparr>msg_id = ''msg-'' @ String_nat (t1 + 1), msg_sender = SenderAi,
           msg_text = fst (generateChatResponse ev n' (ps_query pend)
                             (length (filter (\<lambda>v. video_id v \<in> set ids) (ps_videos pend)))),
           msg_videos = Some (filter (\<lambda>v. video_id v \<in> set ids) (ps_videos pend))\<rparr>],
       isLoading := False\<rparr>,
     snd (generateChatResponse ev n' (ps_query pend)
            (length (filter (\<lambda>v. video_id v \<in> set ids) (ps_videos pend)))))"
  using assms by (simp add: handleSearch_finish_def Let_def split: prod.splits)

text \<open>What the second part appends, whatever the state it runs on.\<close>

lemma handleSearch_finish_appends:
  "\<exists>aiMessage.
     chatHistory (fst (handleSearch_finish ev n t1 pend s)) = chatHistory s @ [aiMessage]
     \<and> msg_sender aiMessage = SenderAi
     \<and> (\<forall>ids n'. findMatchingVideos ev n (ps_query pend) (ps_videosToSearch pend) = (Inr ids, n') \<longrightarrow>
          msg_videos aiMessage = Some (filter (\<lambda>v. video_id v \<in> set ids) (ps_videos pend))
          \<and> msg_text aiMessage =
              fst (generateChatResponse ev n' (ps_query pend)
                     (length (filter (\<lambda>v. video_id v \<in> set ids) (ps_videos pend)))))
     \<and> (\<forall>err n'. findMatchingVideos ev n (ps_query pend) (ps_videosToSearch pend) = (Inl err, n') \<longrightarrow>
          msg_videos aiMessage = None
          \<and> msg_text aiMessage = ''Sorry, I encountered an error: '' @ errorMessageOf err)"
proof (cases "findMatchingVideos ev n (ps_query pend) (ps_videosToSearch pend)")
  case (Pair res n')
  show ?thesis
  proof (cases res)
    case (Inl err)
    with Pair show ?thesis by (simp add: handleSearch_finish_failed)
  next
    case (Inr ids)
    with Pair show ?thesis by (simp add: handleSearch_finish_found)
  qed
qed

lemma spec_turns_alternate_append:
  "spec_turns_alternate xs \<Longrightarrow> spec_turns_alternate ys \<Longrightarrow> spec_turns_alternate (xs @ ys)"
  by (induction xs rule: spec_turns_alternate.induct) auto

lemma handleSearch_appends:
  "\<exists>userMessage aiMessage.
     chatHistory (fst (handleSearch ev n t0 t1 s q)) = chatHistory s @ [userMessage, aiMessage]
     \<and> msg_sender userMessage = SenderUser \<and> msg_text userMessage = q
     \<and> msg_videos userMessage = None \<and> msg_sender aiMessage = SenderAi"
proof -
  let ?s1 = "fst (handleSearch_start t0 s q)" and ?p = "snd (handleSearch_start t0 s q)"
  from handleSearch_finish_appends[of ev n t1 ?p ?s1] obtain m where
    "chatHistory (fst (handleSearch_finish ev n t1 ?p ?s1)) = chatHistory ?s1 @ [m]"
    "msg_sender m = SenderAi" by blast
  then show ?thesis
    by (simp add: handleSearch_def split_beta) (simp add: handleSearch_start_eq)
qed

lemma handleSearch_keeps_alternation:
  assumes "spec_turns_alternate (chatHistory s)"
  shows "spec_turns_alternate (chatHistory (fst (handleSearch ev n t0 t1 s q)))"
proof -
  from handleSearch_appends[of ev n t0 t1 s q] obtain u m where
    "chatHistory (fst (handleSearch ev n t0 t1 s q)) = chatHistory s @ [u, m]"
    "msg_sender u = SenderUser" "msg_videos u = None" "msg_sender m = SenderAi" by blast
  with assms show ?thesis by (simp add: spec_turns_alternate_append)
qed

text \<open>
  Claim C7, as amended. A search appends exactly two messages to the chat history: when it
  starts, a user message with the query as text and no videos; when it finishes, an
  assistant message, appended to the history as it is then, with the reply as text and
  the matched videos attached when the search succeeded, with the apology and no videos
  when it failed. Only assistant messages carry videos, whatever runs in between. When
  no other handler runs between the two parts, the two messages follow each other, and a
  history in which user and assistant turns alternate is still such a history after the
  search.
\<close>

theorem handleSearch_appends_two_messages:
  "(\<exists>userMessage.
      chatHistory (fst (handleSearch_start t0 s q)) = chatHistory s @ [userMessage]
      \<and> msg_sender userMessage = SenderUser \<and> msg_text userMessage = q
      \<and> msg_videos userMessage = None)
   \<and> snd (handleSearch_start t0 s q) =
       \<lparr>ps_query = q, ps_videos = videos s,
        ps_videosToSearch = videosToSearch (selectedFaceIds s) (videos s)\<rparr>
   \<and> (\<exists>aiMessage.
        chatHistory (fst (handleSearch_finish ev n t1 pend s')) = chatHistory s' @ [aiMessage]
        \<and> msg_sender aiMessage = SenderAi
        \<and> (\<forall>ids n'. findMatchingVideos ev n (ps_query pend) (ps_videosToSearch pend) = (Inr ids, n') \<longrightarrow>
             msg_videos aiMessage = Some (filter (\<lambda>v. video_id v \<in> set ids) (ps_videos pend))
             \<and> msg_text aiMessage =
                 fst (generateChatResponse ev n' (ps_query pend)
                        (length (filter (\<lambda>v. video_id v \<in> set ids) (ps_videos pend)))))
        \<and> (\<forall>err n'. findMatchingVideos ev n (ps_query pend) (ps_videosToSearch pend) = (Inl err, n') \<longrightarrow>
             msg_videos aiMessage = None
             \<and> msg_text aiMessage = ''Sorry, I encountered an error: '' @ errorMessageOf err))
   \<and> (spec_only_assistant_has_videos (chatHistory s) \<longrightarrow>
        spec_only_assistant_has_videos (chatHistory (fst (handleSearch_start t0 s q))))
   \<and> (spec_only_assistant_has_videos (chatHistory s') \<longrightarrow>
        spec_only_assistant_has_videos (chatHistory (fst (handleSearch_finish ev n t1 pend s'))))
   \<and> spec_only_assistant_has_videos (chatHistory (handleClearSearch s))
   \<and> spec_only_assistant_has_videos (chatHistory (handleToggleFaceSelection s faceId))
   \<and> (\<exists>userMessage aiMessage.
        chatHistory (fst (handleSearch ev n t0 t1 s q)) = chatHistory s @ [userMessage, aiMessage]
        \<and> msg_sender userMessage = SenderUser \<and> msg_text userMessage = q
        \<and> msg_videos userMessage = None \<and> msg_sender aiMessage = SenderAi)
   \<and> (spec_turns_alternate (chatHistory s) \<longrightarrow>
        spec_turns_alternate (chatHistory (fst (handleSearch ev n t0 t1 s q))))"
proof (intro conjI impI)
  show "\<exists>userMessage.
      chatHistory (fst (handleSearch_start t0 s q)) = chatHistory s @ [userMessage]
      \<and> msg_sender userMessage = SenderUser \<and> msg_text userMessage = q
      \<and> msg_videos userMessage = None"
    by (simp add: handleSearch_start_eq)
  show "snd (handleSearch_start t0 s q) =
       \<lparr>ps_query = q, ps_videos = videos s,
        ps_videosToSearch = videosToSearch (selectedFaceIds s) (videos s)\<rparr>"
    by (simp add: handleSearch_start_eq)
  show "\<exists>aiMessage.
        chatHistory (fst (handleSearch_finish ev n t1 pend s')) = chatHistory s' @ [aiMessage]
        \<and> msg_sender aiMessage = SenderAi
        \<and> (\<forall>ids n'. findMatchingVideos ev n (ps_query pend) (ps_videosToSearch pend) = (Inr ids, n') \<longrightarrow>
             msg_videos aiMessage = Some (filter (\<lambda>v. video_id v \<in> set ids) (ps_videos pend))
             \<and> msg_text aiMessage =
                 fst (generateChatResponse ev n' (ps_query pend)
                        (length (filter (\<lambda>v. video_id v \<in> set ids) (ps_videos pend)))))
        \<and> (\<forall>err n'. findMatchingVideos ev n (ps_query pend) (ps_videosToSearch pend) = (Inl err, n') \<longrightarrow>
             msg_videos aiMessage = None
             \<and> msg_text aiMessage = ''Sorry, I encountered an error: '' @ errorMessageOf err)"
    by (rule handleSearch_finish_appends)
  show "spec_only_assistant_has_videos (chatHistory (fst (handleSearch_start t0 s q)))"
    if "spec_only_assistant_has_videos (chatHistory s)"
    using that by (simp add: handleSearch_start_eq spec_only_assistant_has_videos_def)
  show "spec_only_assistant_has_videos (chatHistory (fst (handleSearch_finish ev n t1 pend s')))"
    if "spec_only_assistant_has_videos (chatHistory s')"
  proof -
    from handleSearch_finish_appends[of ev n t1 pend s'] obtain m where
      "chatHistory (fst (handleSearch_finish ev n t1 pend s')) = chatHistory s' @ [m]"
      "msg_sender m = SenderAi" by blast
    with that show ?thesis by (simp add: spec_only_assistant_has_videos_def)
  qed
  show "spec_only_assistant_has_videos (chatHistory (handleClearSearch s))"
    by (simp add: handleClearSearch_def spec_only_assistant_has_videos_def)
  show "spec_only_assistant_has_videos (chatHistory (handleToggleFaceSelection s faceId))"
    by (simp add: handleToggleFaceSelection_def spec_only_assistant_has_videos_def)
  show "\<exists>userMessage aiMessage.
        chatHistory (fst (handleSearch ev n t0 t1 s q)) = chatHistory s @ [userMessage, aiMessage]
        \<and> msg_sender userMessage = SenderUser \<and> msg_text userMessage = q
        \<and> msg_videos userMessage = None \<and> msg_sender aiMessage = SenderAi"
    by (rule handleSearch_appends)
  show "spec_turns_alternate (chatHistory (fst (handleSearch ev n t0 t1 s q)))"
    if "spec_turns_alternate (chatHistory s)"
    using that by (rule handleSearch_keeps_alternation)
qed

theorem handleSearch_appends_two_messages_witness:
  "spec_turns_alternate (chatHistory ex_app)
   \<and> spec_only_assistant_has_videos (chatHistory ex_started)
   \<and> findMatchingVideos ex_env 0 (ps_query ex_pending) (ps_videosToSearch ex_pending) =
        (Inr [''vid-5-b''], 1)
   \<and> (\<exists>aiMessage.
         chatHistory (fst (handleSearch_finish ex_env 0 1001 ex_pending ex_started)) =
           chatHistory ex_started @ [aiMessage]
         \<and> msg_sender aiMessage = SenderAi \<and> msg_videos aiMessage = Some [ex_video_2])
   \<and> findMatchingVideos (ex_browser ex_video_element ai_down) 0 (ps_query ex_pending)
        (ps_videosToSearch ex_pending) =
        (Inl (Error ''Failed to search videos. Please try again.''), 1)
   \<and> (\<exists>aiMessage.
         chatHistory (fst (handleSearch_finish (ex_browser ex_video_element ai_down) 0 1001
                             ex_pending ex_started)) =
           chatHistory ex_started @ [aiMessage]
         \<and> msg_sender aiMessage = SenderAi \<and> msg_videos aiMessage = None)
   \<and> spec_only_assistant_has_videos
        (chatHistory (fst (handleSearch_finish ex_env 0 1001 ex_pending ex_started)))
   \<and> spec_turns_alternate (chatHistory (fst (handleSearch ex_env 0 1000 1001 ex_app ''beach'')))"
proof -
  have alt: "spec_turns_alternate (chatHistory ex_app)" by code_simp
  have only: "spec_only_assistant_has_videos (chatHistory ex_started)" by code_simp
  have found: "findMatchingVideos ex_env 0 (ps_query ex_pending) (ps_videosToSearch ex_pending) =
        (Inr [''vid-5-b''], 1)"
    by code_simp
  have sel: "filter (\<lambda>v. video_id v \<in> set [''vid-5-b'']) (ps_videos ex_pending) = [ex_video_2]"
    by code_simp
  have failed: "findMatchingVideos (ex_browser ex_video_element ai_down) 0 (ps_query ex_pending)
        (ps_videosToSearch ex_pending) =
        (Inl (Error ''Failed to search videos. Please try again.''), 1)"
    by code_simp
  note up = handleSearch_appends_two_messages[where ev = ex_env and n = 0 and ?t0.0 = 1000
      and ?t1.0 = 1001 and s = ex_app and q = "''beach''" and pend = ex_pending
      and s' = ex_started and faceId = "''face-1-x''"]
  note down = handleSearch_appends_two_messages[where ev = "ex_browser ex_video_element ai_down"
      and n = 0 and ?t0.0 = 1000 and ?t1.0 = 1001 and s = ex_app and q = "''beach''"
      and pend = ex_pending and s' = ex_started and faceId = "''face-1-x''"]
  from up found sel have 1: "\<exists>aiMessage.
         chatHistory (fst (handleSearch_finish ex_env 0 1001 ex_pending ex_started)) =
           chatHistory ex_started @ [aiMessage]
         \<and> msg_sender aiMessage = SenderAi \<and> msg_videos aiMessage = Some [ex_video_2]"
    by (simp only: simp_thms) metis
  from down failed have 2: "\<exists>aiMessage.
         chatHistory (fst (handleSearch_finish (ex_browser ex_video_element ai_down) 0 1001
                             ex_pending ex_started)) =
           chatHistory ex_started @ [aiMessage]
         \<and> msg_sender aiMessage = SenderAi \<and> msg_videos aiMessage = None"
    by (simp only: simp_thms) metis
  from up only have 3: "spec_only_assistant_has_videos
        (chatHistory (fst (handleSearch_finish ex_env 0 1001 ex_pending ex_started)))"
    by blast
  from up alt have 4:
    "spec_turns_alternate (chatHistory (fst (handleSearch ex_env 0 1000 1001 ex_app ''beach'')))"
    by blast
  from alt only found failed 1 2 3 4 show ?thesis by blast
qed

text \<open>
  Claim C7 as it was stated fails: when the search is cleared between the two parts of a
  search, the history ends with the assistant message alone, and turns do not alternate.
\<close>

theorem clear_during_search_breaks_alternation:
  "spec_turns_alternate (chatHistory ex_app)
   \<and> map msg_sender (chatHistory ex_started) = [SenderUser]
   \<and> chatHistory (handleClearSearch ex_started) = []
   \<and> map msg_sender
        (chatHistory (fst (handleSearch_finish ex_env 0 1001 ex_pending (handleClearSearch ex_started))))
       = [SenderAi]
   \<and> \<not> spec_turns_alternate
        (chatHistory (fst (handleSearch_finish ex_env 0 1001 ex_pending (handleClearSearch ex_started))))"
  by code_simp

section \<open>Errors of the AI service and of the store\<close>






section \<open>Uploads and the foreign keys\<close>

lemma bulkAdd_all_added:
  "bulkAdd tbl fs = (0, tbl') \<Longrightarrow> tbl' = tbl @ fs \<and> (\<forall>fc \<in> set fs. face_id fc \<notin> face_id ` set tbl)"
proof (induction fs arbitrary: tbl)
  case Nil
  then show ?case by simp
next
  case (Cons fc fs)
  show ?case
  proof (cases "face_id fc \<in> set (map face_id tbl)")
    case True
    with Cons.prems show ?thesis by (simp split: prod.splits)
  next
    case False
    with Cons.prems have "bulkAdd (tbl @ [fc]) fs = (0, tbl')" by simp
    from Cons.IH[OF this] False show ?thesis by auto
  qed
qed

lemma bulkAdd_added:
  "\<exists>added. snd (bulkAdd tbl fs) = tbl @ added \<and> set added \<subseteq> set fs"
proof (induction fs arbitrary: tbl)
  case Nil
  then show ?case by simp
next
  case (Cons fc fs)
  show ?case
  proof (cases "face_id fc \<in> set (map face_id tbl)")
    case True
    from Cons.IH[of tbl] obtain added where "snd (bulkAdd tbl fs) = tbl @ added" "set added \<subseteq> set fs"
      by blast
    with True show ?thesis by (auto split: prod.splits)
  next
    case False
    from Cons.IH[of "tbl @ [fc]"] obtain added where
      "snd (bulkAdd (tbl @ [fc]) fs) = (tbl @ [fc]) @ added" "set added \<subseteq> set fs" by blast
    with False show ?thesis by (auto intro!: exI[of _ "fc # added"])
  qed
qed

lemma addFaces_ok:
  assumes "addFaces d fs = (None, d1)"
  shows "d1 = d\<lparr>db_faces := db_faces d @ fs\<rparr> \<and> (\<forall>fc \<in> set fs. face_id fc \<notin> face_id ` set (db_faces d))"
proof -
  obtain k tbl' where b: "bulkAdd (db_faces d) fs = (k, tbl')" by (cases "bulkAdd (db_faces d) fs")
  with assms have "k = 0" "d1 = d\<lparr>db_faces := tbl'\<rparr>"
    by (auto simp: addFaces_def split: if_splits)
  with bulkAdd_all_added[of "db_faces d" fs tbl'] b show ?thesis by auto
qed

lemma addFaces_db:
  "\<exists>added. snd (addFaces d fs) = d\<lparr>db_faces := db_faces d @ added\<rparr> \<and> set added \<subseteq> set fs"
proof -
  obtain k tbl' where b: "bulkAdd (db_faces d) fs = (k, tbl')" by (cases "bulkAdd (db_faces d) fs")
  with bulkAdd_added[of "db_faces d" fs] show ?thesis by (auto simp: addFaces_def)
qed

lemma newFaces_userId: "fc \<in> set (newFaces entropy uid crops) \<Longrightarrow> face_userId fc = uid"
  by (auto simp: newFaces_def)

lemma length_newFaces: "length (newFaces entropy uid crops) = length crops"
  by (simp add: newFaces_def)

lemma handleUpload_signed_in:
  assumes "currentUser a = Some cu" "user_id cu = Some uid" "0 < uid"
  shows "handleUpload ev entropy d a s f r dur =
    (case (if length (newFaces entropy uid (vr_faces r)) > 0
           then addFaces d (newFaces entropy uid (vr_faces r)) else (None, d)) of
       (Some err, d1) \<Rightarrow> (Some err, d1, s)
     | (None, d1) \<Rightarrow>
         (case addVideo d1
                 \<lparr>video_id = ''vid-'' @ String_nat (fst (entropy (length (newFaces entropy uid (vr_faces r)))))
                     @ ''-'' @ snd (entropy (length (newFaces entropy uid (vr_faces r)))),
                  video_userId = uid, video_name = file_name f, video_file = f,
                  video_description = vr_description r, video_duration = dur,
                  faceIds = map face_id (newFaces entropy uid (vr_faces r)),
                  segments = vr_segments r, transcript = vr_transcript r,
                  onScreenText = vr_onScreenText r\<rparr> of
            Inl err \<Rightarrow> (Some err, d1, s)
          | Inr d2 \<Rightarrow> (None, d2, loadUserData ev d2 a s)))"
  using assms by (simp add: handleUpload_def Let_def split: prod.splits option.splits)

lemma handleUpload_signed_out:
  assumes "\<not> (\<exists>cu uid. currentUser a = Some cu \<and> user_id cu = Some uid \<and> 0 < uid)"
  shows "handleUpload ev entropy d a s f r dur = (None, d, s)"
  using assms by (auto simp: handleUpload_def split: option.splits)

lemma addVideo_InrD: "addVideo d v = Inr d' \<Longrightarrow> d' = d\<lparr>db_videos := db_videos d @ [v]\<rparr>"
  by (auto simp: addVideo_def split: if_splits)

text \<open>What a completed upload of a signed-in user has stored.\<close>

lemma handleUpload_completed:
  assumes "currentUser a = Some cu" "user_id cu = Some uid" "0 < uid"
    and "handleUpload ev entropy d a s f r dur = (None, d', s')"
  shows "\<exists>v. d' = d\<lparr>db_faces := db_faces d @ newFaces entropy uid (vr_faces r),
                     db_videos := db_videos d @ [v]\<rparr>
            \<and> (\<forall>fc \<in> set (newFaces entropy uid (vr_faces r)). face_id fc \<notin> face_id ` set (db_faces d))
            \<and> video_userId v = uid \<and> video_name v = file_name f \<and> video_file v = f
            \<and> video_description v = vr_description r \<and> video_duration v = dur
            \<and> faceIds v = map face_id (newFaces entropy uid (vr_faces r))
            \<and> segments v = vr_segments r \<and> transcript v = vr_transcript r
            \<and> onScreenText v = vr_onScreenText r"
proof (cases "length (newFaces entropy uid (vr_faces r)) > 0")
  case True
  with assms(4) obtain d1 where
    d1: "addFaces d (newFaces entropy uid (vr_faces r)) = (None, d1)"
    unfolding handleUpload_signed_in[OF assms(1-3)]
    by (auto split: prod.splits option.splits sum.splits)
  from addFaces_ok[OF d1] assms(4) True d1 show ?thesis
    unfolding handleUpload_signed_in[OF assms(1-3)]
    by (auto split: sum.splits dest!: addVideo_InrD)
next
  case False
  then have "newFaces entropy uid (vr_faces r) = []" by simp
  with assms(4) show ?thesis
    unfolding handleUpload_signed_in[OF assms(1-3)]
    by (auto split: sum.splits dest!: addVideo_InrD)
qed

text \<open>Whatever its outcome, an upload of a signed-in user only adds rows with this user's id.\<close>

lemma handleUpload_db:
  assumes "currentUser a = Some cu" "user_id cu = Some uid" "0 < uid"
    and h: "handleUpload ev entropy d a s f r dur = (thrown, d', s')"
  shows "\<exists>added vs.
       d' = d\<lparr>db_faces := db_faces d @ added, db_videos := db_videos d @ vs\<rparr>
       \<and> set added \<subseteq> set (newFaces entropy uid (vr_faces r))
       \<and> (\<forall>v \<in> set vs. video_userId v = uid \<and> set (faceIds v) \<subseteq> face_id ` set added)"
proof -
  let ?nfs = "newFaces entropy uid (vr_faces r)"
  let ?v = "\<lparr>video_id = ''vid-'' @ String_nat (fst (entropy (length ?nfs)))
                     @ ''-'' @ snd (entropy (length ?nfs)),
                  video_userId = uid, video_name = file_name f, video_file = f,
                  video_description = vr_description r, video_duration = dur,
                  faceIds = map face_id ?nfs,
                  segments = vr_segments r, transcript = vr_transcript r,
                  onScreenText = vr_onScreenText r\<rparr>"
  obtain t1 d1 where a1: "(if length ?nfs > 0 then addFaces d ?nfs else (None, d)) = (t1, d1)"
    by (cases "if length ?nfs > 0 then addFaces d ?nfs else (None, d)")
  have "\<exists>added. d1 = d\<lparr>db_faces := db_faces d @ added\<rparr> \<and> set added \<subseteq> set ?nfs
          \<and> (t1 = None \<longrightarrow> added = ?nfs)"
  proof (cases "length ?nfs > 0")
    case False
    with a1 show ?thesis by (auto intro!: exI[of _ "[]"])
  next
    case True
    with a1 have af: "addFaces d ?nfs = (t1, d1)" by simp
    from addFaces_db[of d ?nfs] af obtain added where
      "d1 = d\<lparr>db_faces := db_faces d @ added\<rparr>" "set added \<subseteq> set ?nfs" by auto
    moreover have "d1 = d\<lparr>db_faces := db_faces d @ ?nfs\<rparr>" if "t1 = None"
      using addFaces_ok[of d ?nfs d1] af that by simp
    ultimately show ?thesis by (cases t1) auto
  qed
  then obtain added where
    added: "d1 = d\<lparr>db_faces := db_faces d @ added\<rparr>" "set added \<subseteq> set ?nfs"
      "t1 = None \<longrightarrow> added = ?nfs" by blast
  show ?thesis
  proof (cases t1)
    case (Some err)
    with h a1 have "d' = d1" unfolding handleUpload_signed_in[OF assms(1-3)] by simp
    with added show ?thesis by (intro exI[of _ added] exI[of _ "[]::video list"]) auto
  next
    case None
    show ?thesis
    proof (cases "addVideo d1 ?v")
      case (Inl err)
      with h a1 None have "d' = d1" unfolding handleUpload_signed_in[OF assms(1-3)] by simp
      with added show ?thesis by (intro exI[of _ added] exI[of _ "[]::video list"]) auto
    next
      case (Inr d2)
      with h a1 None have "d' = d2" unfolding handleUpload_signed_in[OF assms(1-3)] by simp
      with addVideo_InrD[OF Inr] added None show ?thesis
        by (intro exI[of _ added] exI[of _ "[?v]"]) auto
    qed
  qed
qed

lemma keys_ok_same_users:
  "keys_ok d \<Longrightarrow> db_users d' = db_users d \<Longrightarrow> db_users_next d' = db_users_next d \<Longrightarrow> keys_ok d'"
  by (auto simp: keys_ok_def list_all_iff split: option.splits)

lemma foreign_keys_more_users:
  assumes "spec_foreign_keys_hold d" "db_faces d' = db_faces d" "db_videos d' = db_videos d"
    and "set (db_users d) \<subseteq> set (db_users d')"
  shows "spec_foreign_keys_hold d'"
  using assms unfolding spec_foreign_keys_hold_def by (simp add: subset_iff) blast

lemma signup_InrD:
  assumes "signup ev d a e p = (Inr a', d')"
  shows "\<exists>u. currentUser a' = Some u \<and> u \<in> set (db_users d')"
proof -
  from assms obtain k u where u: "getUserById d' k = Some u" "currentUser a' = Some u"
    by (auto simp: signup_def split: option.splits sum.splits if_splits)
  from u(1) have "u \<in> set (db_users d')" unfolding getUserById_def by (auto dest: find_SomeD)
  with u show ?thesis by auto
qed

lemma signup_keeps:
  "db_faces (snd (signup ev d a e p)) = db_faces d \<and> db_videos (snd (signup ev d a e p)) = db_videos d
   \<and> set (db_users d) \<subseteq> set (db_users (snd (signup ev d a e p)))"
  using signup_db[of ev d a e p] by (auto dest!: createUser_InrD)

lemma checkLoggedInUser_user:
  "currentUser (checkLoggedInUser parseInt d a) = Some u \<Longrightarrow>
   currentUser a = Some u \<or> u \<in> set (db_users d)"
  by (auto simp: checkLoggedInUser_def getUserById_def split: option.splits if_splits dest!: find_SomeD)

lemma foreign_keys_upload:
  assumes fk: "spec_foreign_keys_hold d" and cu: "cu \<in> set (db_users d)" "user_id cu = Some uid"
    and d': "d' = d\<lparr>db_faces := db_faces d @ added, db_videos := db_videos d @ vs\<rparr>"
    and added: "\<forall>fc \<in> set added. face_userId fc = uid"
    and vs: "\<forall>v \<in> set vs. video_userId v = uid \<and> set (faceIds v) \<subseteq> face_id ` set added"
  shows "spec_foreign_keys_hold d'"
  unfolding spec_foreign_keys_hold_def
proof (intro conjI ballI)
  fix fc assume "fc \<in> set (db_faces d')"
  then consider "fc \<in> set (db_faces d)" | "fc \<in> set added" using d' by auto
  then show "\<exists>u \<in> set (db_users d'). user_id u = Some (face_userId fc)"
  proof cases
    case 1
    with fk d' show ?thesis by (auto simp: spec_foreign_keys_hold_def)
  next
    case 2
    with added cu d' show ?thesis by auto
  qed
next
  fix v assume "v \<in> set (db_videos d')"
  then consider "v \<in> set (db_videos d)" | "v \<in> set vs" using d' by auto
  then show "\<exists>u \<in> set (db_users d'). user_id u = Some (video_userId v)"
  proof cases
    case 1
    with fk d' show ?thesis by (auto simp: spec_foreign_keys_hold_def)
  next
    case 2
    with vs cu d' show ?thesis by auto
  qed
next
  fix v fid assume v: "v \<in> set (db_videos d')" and fid: "fid \<in> set (faceIds v)"
  from v consider "v \<in> set (db_videos d)" | "v \<in> set vs" using d' by auto
  then show "\<exists>fc \<in> set (db_faces d'). face_id fc = fid \<and> face_userId fc = video_userId v"
  proof cases
    case 1
    with fk fid obtain fc where "fc \<in> set (db_faces d)" "face_id fc = fid" "face_userId fc = video_userId v"
      unfolding spec_foreign_keys_hold_def by blast
    with d' show ?thesis by auto
  next
    case 2
    with vs fid obtain fc where "fc \<in> set added" "face_id fc = fid" by auto
    with added vs 2 d' show ?thesis by auto
  qed
qed

lemma foreign_keys_updateFaceName:
  assumes "spec_foreign_keys_hold d"
  shows "spec_foreign_keys_hold (updateFaceName d faceId n)"
proof -
  define g where "g = (\<lambda>fc::face. if face_id fc = faceId then fc\<lparr>face_name := Some n\<rparr> else fc)"
  have g: "face_id (g fc) = face_id fc" "face_userId (g fc) = face_userId fc" for fc
    by (simp_all add: g_def)
  have d': "db_faces (updateFaceName d faceId n) = map g (db_faces d)"
    "db_users (updateFaceName d faceId n) = db_users d"
    "db_videos (updateFaceName d faceId n) = db_videos d"
    by (simp_all add: updateFaceName_def g_def)
  show ?thesis
    unfolding spec_foreign_keys_hold_def d'
  proof (intro conjI ballI)
    fix fc assume "fc \<in> set (map g (db_faces d))"
    then obtain fc0 where "fc0 \<in> set (db_faces d)" "fc = g fc0" by auto
    with assms show "\<exists>u \<in> set (db_users d). user_id u = Some (face_userId fc)"
      unfolding spec_foreign_keys_hold_def by (simp add: g)
  next
    fix v assume "v \<in> set (db_videos d)"
    with assms show "\<exists>u \<in> set (db_users d). user_id u = Some (video_userId v)"
      unfolding spec_foreign_keys_hold_def by blast
  next
    fix v fid assume "v \<in> set (db_videos d)" "fid \<in> set (faceIds v)"
    with assms obtain fc where "fc \<in> set (db_faces d)" "face_id fc = fid"
      "face_userId fc = video_userId v"
      unfolding spec_foreign_keys_hold_def by blast
    then show "\<exists>fc \<in> set (map g (db_faces d)). face_id fc = fid \<and> face_userId fc = video_userId v"
      by (intro bexI[of _ "g fc"]) (simp_all add: g)
  qed
qed

lemma invariant_start:
  "keys_ok empty_db \<and> spec_foreign_keys_hold empty_db"
  using keys_ok_empty by (simp add: spec_foreign_keys_hold_def empty_db_def)

lemma invariant_signup:
  assumes "keys_ok d \<and> spec_foreign_keys_hold d"
  shows "keys_ok (snd (signup ev d a e p)) \<and> spec_foreign_keys_hold (snd (signup ev d a e p))
       \<and> set (db_users d) \<subseteq> set (db_users (snd (signup ev d a e p)))"
proof (intro conjI)
  note k = signup_keeps[of ev d a e p]
  from assms show "keys_ok (snd (signup ev d a e p))"
    by (intro signup_keys_ok) (rule conjunct1)
  from assms show "spec_foreign_keys_hold (snd (signup ev d a e p))"
    by (intro foreign_keys_more_users[OF _ k[THEN conjunct1] k[THEN conjunct2, THEN conjunct1]
          k[THEN conjunct2, THEN conjunct2]]) (rule conjunct2)
  show "set (db_users d) \<subseteq> set (db_users (snd (signup ev d a e p)))"
    by (rule k[THEN conjunct2, THEN conjunct2])
qed

lemma invariant_login:
  assumes "login ev d a e p = Inr a'" "currentUser a' = Some u"
  shows "u \<in> set (db_users d)"
proof -
  from login_InrD[OF assms(1)] assms(2) have "getUserByEmail ev d e = Some u" by auto
  then show ?thesis using getUserByEmail_SomeD by blast
qed

lemma invariant_upload:
  assumes "keys_ok d \<and> spec_foreign_keys_hold d \<and> (\<forall>u. currentUser a = Some u \<longrightarrow> u \<in> set (db_users d))"
    and h: "handleUpload ev entropy d a s f r dur = (thrown, d', s')"
  shows "keys_ok d' \<and> spec_foreign_keys_hold d' \<and> db_users d' = db_users d"
proof (cases "\<exists>cu uid. currentUser a = Some cu \<and> user_id cu = Some uid \<and> 0 < uid")
  case False
  from handleUpload_signed_out[OF False, of ev entropy d s f r dur] h have "d' = d" by simp
  with assms(1) show ?thesis by simp
next
  case True
  then obtain cu uid where cu: "currentUser a = Some cu" "user_id cu = Some uid" "0 < uid" by blast
  from handleUpload_db[OF cu h] obtain added vs where
    d': "d' = d\<lparr>db_faces := db_faces d @ added, db_videos := db_videos d @ vs\<rparr>"
    and added: "set added \<subseteq> set (newFaces entropy uid (vr_faces r))"
    and vs: "\<forall>v \<in> set vs. video_userId v = uid \<and> set (faceIds v) \<subseteq> face_id ` set added"
    by blast
  from added have au: "\<forall>fc \<in> set added. face_userId fc = uid"
    using newFaces_userId by blast
  from assms(1) cu(1) have in_db: "cu \<in> set (db_users d)" by blast
  from assms(1) have fk: "spec_foreign_keys_hold d" by blast
  have 1: "spec_foreign_keys_hold d'"
    by (rule foreign_keys_upload[OF fk in_db cu(2) d' au vs])
  have 2: "keys_ok d'"
    by (rule keys_ok_same_users[of d]) (use assms(1) in \<open>simp_all add: d'\<close>)
  have 3: "db_users d' = db_users d" by (simp add: d')
  from 1 2 3 show ?thesis by blast
qed

lemma invariant_nameFace:
  assumes "keys_ok d \<and> spec_foreign_keys_hold d"
  shows "keys_ok (updateFaceName d faceId n) \<and> spec_foreign_keys_hold (updateFaceName d faceId n)
       \<and> db_users (updateFaceName d faceId n) = db_users d"
proof -
  have "keys_ok (updateFaceName d faceId n)"
    by (rule keys_ok_same_users[of d]) (use assms in \<open>simp_all add: updateFaceName_def\<close>)
  moreover have "db_users (updateFaceName d faceId n) = db_users d"
    by (simp add: updateFaceName_def)
  ultimately show ?thesis using assms foreign_keys_updateFaceName[of d faceId n] by blast
qed

lemma reachable_invariant:
  assumes "reachable d a"
  shows "keys_ok d \<and> spec_foreign_keys_hold d \<and> (\<forall>u. currentUser a = Some u \<longrightarrow> u \<in> set (db_users d))"
  using assms
proof (induction rule: reachable.induct)
  case reach_start
  show ?case using invariant_start by simp
next
  case (reach_signup d a ev e p a' d')
  then have d': "snd (signup ev d a e p) = d'" by simp
  from reach_signup.IH invariant_signup[of d ev a e p] have "keys_ok d' \<and> spec_foreign_keys_hold d'"
    unfolding d' by blast
  moreover from signup_InrD[OF reach_signup.hyps(2)]
  have "\<forall>u. currentUser a' = Some u \<longrightarrow> u \<in> set (db_users d')" by auto
  ultimately show ?case by blast
next
  case (reach_signup_rejected d a ev e p err d')
  then have d': "snd (signup ev d a e p) = d'" by simp
  from reach_signup_rejected.IH invariant_signup[of d ev a e p]
  have "keys_ok d' \<and> spec_foreign_keys_hold d' \<and> set (db_users d) \<subseteq> set (db_users d')"
    unfolding d' by blast
  with reach_signup_rejected.IH show ?case by blast
next
  case (reach_login d a ev e p a')
  with invariant_login[OF reach_login.hyps(2)] show ?case by blast
next
  case (reach_logout d a)
  then show ?case by (simp add: logout_def)
next
  case (reach_reload d a parseInt)
  have "\<forall>u. currentUser (checkLoggedInUser parseInt d a) = Some u \<longrightarrow> u \<in> set (db_users d)"
  proof (intro allI impI)
    fix u assume "currentUser (checkLoggedInUser parseInt d a) = Some u"
    from checkLoggedInUser_user[OF this] reach_reload.IH show "u \<in> set (db_users d)" by blast
  qed
  with reach_reload.IH show ?case by blast
next
  case (reach_upload d a ev entropy s f r dur thrown d' s')
  from invariant_upload[OF reach_upload.IH reach_upload.hyps(2)] reach_upload.IH
  show ?case by simp
next
  case (reach_nameFace d a s faceId n d' s')
  then have d': "d' = updateFaceName d faceId n" by (simp add: handleNameFace_def)
  from reach_nameFace.IH invariant_nameFace[of d faceId n] show ?case unfolding d' by simp
qed

text \<open>
  Claim C5. In every state the program can be in, an upload of the signed-in user that
  completes has stored exactly one new video record: the uploaded file with its name, the
  description, segments, transcript and on-screen text of the analysis, and the measured
  duration, under the id of the current user. Each of its \<open>faceIds\<close> is the key of a face
  record that this very upload has stored, with the same user id, and the current user is
  a row of \<open>users\<close>; the foreign keys hold in the store afterwards, as they do in every
  state (\<open>reachable_invariant\<close>).
\<close>

theorem handleUpload_stores_video_with_valid_references:
  assumes "reachable d a" and "currentUser a = Some cu"
    and "handleUpload ev entropy d a s f r dur = (None, d', s')"
  shows "\<exists>v uid. user_id cu = Some uid \<and> cu \<in> set (db_users d')
       \<and> db_videos d' = db_videos d @ [v]
       \<and> video_file v = f \<and> video_name v = file_name f
       \<and> video_description v = vr_description r \<and> video_duration v = dur
       \<and> segments v = vr_segments r \<and> transcript v = vr_transcript r
       \<and> onScreenText v = vr_onScreenText r
       \<and> video_userId v = uid
       \<and> length (faceIds v) = length (vr_faces r)
       \<and> (\<forall>fid \<in> set (faceIds v).
             \<exists>fc \<in> set (db_faces d'). face_id fc = fid \<and> face_userId fc = uid \<and> fc \<notin> set (db_faces d))
       \<and> spec_foreign_keys_hold d'"
proof -
  from reachable_invariant[OF assms(1)] assms(2)
  have ok: "keys_ok d" and cu: "cu \<in> set (db_users d)" by auto
  from keys_ok_user_id[OF ok cu] obtain uid where uid: "user_id cu = Some uid" "0 < uid"
    by auto
  from handleUpload_completed[OF assms(2) uid assms(3)] obtain v where
    d': "d' = d\<lparr>db_faces := db_faces d @ newFaces entropy uid (vr_faces r),
                     db_videos := db_videos d @ [v]\<rparr>"
    and fresh: "\<forall>fc \<in> set (newFaces entropy uid (vr_faces r)). face_id fc \<notin> face_id ` set (db_faces d)"
    and v: "video_userId v = uid" "video_name v = file_name f" "video_file v = f"
      "video_description v = vr_description r" "video_duration v = dur"
      "faceIds v = map face_id (newFaces entropy uid (vr_faces r))"
      "segments v = vr_segments r" "transcript v = vr_transcript r"
      "onScreenText v = vr_onScreenText r"
    by blast
  have refs: "\<exists>fc \<in> set (db_faces d'). face_id fc = fid \<and> face_userId fc = uid \<and> fc \<notin> set (db_faces d)"
    if "fid \<in> set (faceIds v)" for fid
  proof -
    from that v(6) obtain fc where fc: "fc \<in> set (newFaces entropy uid (vr_faces r))" "face_id fc = fid"
      by auto
    with fresh have "fc \<notin> set (db_faces d)" by auto
    with fc newFaces_userId[OF fc(1)] d' show ?thesis by auto
  qed
  from reachable_invariant[OF reach_upload[OF assms(1) assms(3)]]
  have "spec_foreign_keys_hold d'" by simp
  with uid cu d' v refs show ?thesis
    by (intro exI[of _ v] exI[of _ uid]) (simp add: length_newFaces)
qed


theorem handleUpload_stores_video_with_valid_references_witness:
  "reachable ex_users_db ex_signed_in
   \<and> currentUser ex_signed_in = Some ex_ann
   \<and> fst (handleUpload (ex_browser ex_video_element ai_up) ex_entropy ex_users_db ex_signed_in
            initial_app ex_file ex_analysis_result (Fin 26)) = None
   \<and> map video_id (db_videos (fst (snd (handleUpload (ex_browser ex_video_element ai_up) ex_entropy
            ex_users_db ex_signed_in initial_app ex_file ex_analysis_result (Fin 26))))) =
        [''vid-102-k3x9q22'']
   \<and> map face_id (db_faces (fst (snd (handleUpload (ex_browser ex_video_element ai_up) ex_entropy
            ex_users_db ex_signed_in initial_app ex_file ex_analysis_result (Fin 26))))) =
        [''face-100-k3x9q20'', ''face-101-k3x9q21'']
   \<and> (\<exists>v uid. user_id ex_ann = Some uid
         \<and> db_videos (fst (snd (handleUpload (ex_browser ex_video_element ai_up) ex_entropy
              ex_users_db ex_signed_in initial_app ex_file ex_analysis_result (Fin 26)))) =
             db_videos ex_users_db @ [v]
         \<and> video_file v = ex_file \<and> video_userId v = uid
         \<and> length (faceIds v) = length (vr_faces ex_analysis_result))
   \<and> spec_foreign_keys_hold (fst (snd (handleUpload (ex_browser ex_video_element ai_up) ex_entropy
            ex_users_db ex_signed_in initial_app ex_file ex_analysis_result (Fin 26))))"
proof -
  let ?up = "handleUpload (ex_browser ex_video_element ai_up) ex_entropy ex_users_db ex_signed_in
            initial_app ex_file ex_analysis_result (Fin 26)"
  have su: "signup ex_env empty_db \<lparr>currentUser = None, sessionUserId = None\<rparr> ''Ann@Example.com'' ''secret'' =
      (Inr ex_signed_in, ex_users_db)" by code_simp
  have r: "reachable ex_users_db ex_signed_in" by (rule reach_signup[OF reach_start su])
  have c: "currentUser ex_signed_in = Some ex_ann" by (simp add: ex_signed_in_def)
  have n: "fst ?up = None" by code_simp
  then have h: "?up = (None, fst (snd ?up), snd (snd ?up))" by (cases ?up) simp
  have v: "map video_id (db_videos (fst (snd ?up))) = [''vid-102-k3x9q22'']" by code_simp
  have f: "map face_id (db_faces (fst (snd ?up))) =
        [''face-100-k3x9q20'', ''face-101-k3x9q21'']" by code_simp
  from handleUpload_stores_video_with_valid_references[OF r c h]
  have "(\<exists>v uid. user_id ex_ann = Some uid
         \<and> db_videos (fst (snd ?up)) = db_videos ex_users_db @ [v]
         \<and> video_file v = ex_file \<and> video_userId v = uid
         \<and> length (faceIds v) = length (vr_faces ex_analysis_result))
        \<and> spec_foreign_keys_hold (fst (snd ?up))"
    by blast
  with r c n v f show ?thesis by blast
qed

end
